theory Spec2Isabelle
  imports Main "HOL-Library.AList"
begin

section \<open>Path names (pathlib, POSIX flavour)\<close>

text \<open>
  \<^verbatim>\<open>BatchProcessor.get_temp_path\<close> is written with \<^verbatim>\<open>pathlib.Path\<close>:
  \<^verbatim>\<open>str(Path(self.temp_dir) / f"temp_{Path(original_path).name}")\<close>.
  A pure POSIX path is parsed into a root (\<open>''''\<close>, \<open>''/''\<close> or \<open>''//''\<close>) and the list of
  its components; empty components and \<open>''.''\<close> are dropped by the parser.
\<close>

record pure_path =
  p_root :: string
  p_tail :: "string list"

text \<open>\<^verbatim>\<open>str.split('/')\<close>: the pieces between the separators, never an empty list.\<close>

fun split_sep :: "string \<Rightarrow> string list" where
  "split_sep [] = [[]]"
| "split_sep (c # cs) =
     (if c = CHR ''/'' then [] # split_sep cs
      else (case split_sep cs of [] \<Rightarrow> [[c]] | w # ws \<Rightarrow> (c # w) # ws))"

text \<open>\<^verbatim>\<open>'/'.join(parts)\<close>.\<close>

fun join_sep :: "string list \<Rightarrow> string" where
  "join_sep [] = []"
| "join_sep [x] = x"
| "join_sep (x # y # ys) = x @ CHR ''/'' # join_sep (y # ys)"

text \<open>
  \<^verbatim>\<open>splitroot\<close>: exactly two leading slashes give the root \<open>''//''\<close>, any other positive
  number of them the root \<open>''/''\<close>.
\<close>

definition splitroot :: "string \<Rightarrow> string" where
  "splitroot part =
     (if part \<noteq> [] \<and> hd part = CHR ''/'' then
        (if length (takeWhile (\<lambda>c. c = CHR ''/'') part) = 2 then ''//'' else ''/'')
      else [])"

definition Path :: "string \<Rightarrow> pure_path" where
  "Path s = \<lparr>p_root = splitroot s,
             p_tail = filter (\<lambda>x. x \<noteq> [] \<and> x \<noteq> ''.'') (split_sep s)\<rparr>"

text \<open>\<^verbatim>\<open>PurePath.name\<close>: the final component, the empty string when there is none.\<close>

definition path_name :: "pure_path \<Rightarrow> string" where
  "path_name p = (if p_tail p = [] then [] else last (p_tail p))"

text \<open>\<^verbatim>\<open>PurePath.__str__\<close>: a path without root and components prints as \<open>''.''\<close>.\<close>

definition path_str :: "pure_path \<Rightarrow> string" where
  "path_str p =
     (if p_root p = [] \<and> p_tail p = [] then ''.'' else p_root p @ join_sep (p_tail p))"

text \<open>\<^verbatim>\<open>self / key\<close>: a rooted key replaces the path, any other key extends it.\<close>

definition truediv :: "pure_path \<Rightarrow> string \<Rightarrow> pure_path" where
  "truediv p key =
     (let k = Path key
      in if p_root k \<noteq> [] then k else \<lparr>p_root = p_root p, p_tail = p_tail p @ p_tail k\<rparr>)"

section \<open>Batch processor\<close>

text \<open>
  \<^verbatim>\<open>processed_images\<close> is a Python dict: assigning to a present key replaces its value in
  place, assigning to a new key appends the pair, which is \<^const>\<open>AList.update\<close>.
  \<^verbatim>\<open>temp_dir\<close> holds what \<^verbatim>\<open>tempfile.mkdtemp()\<close> returned when the instance was made.
\<close>

record batch_processor =
  effects_queue :: "string list"
  temp_dir :: string
  processed_images :: "(string \<times> string) list"

definition init_batch_processor :: "string \<Rightarrow> batch_processor" where
  "init_batch_processor mkdtemp =
     \<lparr>effects_queue = [], temp_dir = mkdtemp, processed_images = []\<rparr>"

definition add_effect :: "string \<Rightarrow> batch_processor \<Rightarrow> batch_processor" where
  "add_effect effect bp = bp\<lparr>effects_queue := effects_queue bp @ [effect]\<rparr>"

definition clear_effects :: "batch_processor \<Rightarrow> batch_processor" where
  "clear_effects bp = bp\<lparr>effects_queue := []\<rparr>"

definition get_temp_path :: "batch_processor \<Rightarrow> string \<Rightarrow> string" where
  "get_temp_path bp original_path =
     path_str (truediv (Path (temp_dir bp)) (''temp_'' @ path_name (Path original_path)))"

text \<open>
  \<^verbatim>\<open>tempfile.mkdtemp()\<close> returns the absolute, normalised path name of the directory it
  created: a string that \<^verbatim>\<open>str(Path(d))\<close> gives back unchanged and that names at least
  one component.
\<close>

definition normal_pathname :: "string \<Rightarrow> bool" where
  "normal_pathname d \<longleftrightarrow> path_str (Path d) = d \<and> p_tail (Path d) \<noteq> []"

section \<open>The progress percentage (binary64 arithmetic)\<close>

text \<open>
  \<^verbatim>\<open>int((completed_operations / total_operations) * 100)\<close> is computed in Python floats:
  the true division of two ints is the nearest binary64 number to the quotient, the
  product with \<^verbatim>\<open>100\<close> is rounded to binary64 again, and \<^verbatim>\<open>int\<close> truncates. A positive
  finite double is a pair \<open>(m, e)\<close> standing for \<open>m * 2 ^ e\<close>, with a mantissa of 53 bits.
  The numbers met here lie between \<open>1 / total\<close> and \<open>100\<close>, inside the normal range, so
  neither overflow nor subnormal numbers are modelled.
\<close>

type_synonym double = "nat \<times> int"

fun bit_length :: "nat \<Rightarrow> nat" where
  "bit_length n = (if n = 0 then 0 else Suc (bit_length (n div 2)))"

text \<open>The integer nearest to \<open>p / q\<close>, ties to even.\<close>

definition round_half_even :: "nat \<Rightarrow> nat \<Rightarrow> nat" where
  "round_half_even p q =
     (let d = p div q; r = p mod q
      in if 2 * r < q then d else if q < 2 * r then d + 1 else if even d then d else d + 1)"

text \<open>
  The double nearest to the positive rational \<open>p / q\<close>: \<open>E\<close> is the integer part of its
  binary logarithm, which the bit lengths give up to one.
\<close>

definition to_double :: "nat \<Rightarrow> nat \<Rightarrow> double" where
  "to_double p q =
     (if p = 0 then (0, 0)
      else
        let x = int (bit_length p) - int (bit_length q);
            E = (if (if 0 \<le> x then q * 2 ^ nat x \<le> p else q \<le> p * 2 ^ nat (- x))
                 then x else x - 1);
            e = E - 52
        in (if 0 \<le> e then round_half_even p (q * 2 ^ nat e)
            else round_half_even (p * 2 ^ nat (- e)) q, e))"

definition d_num :: "double \<Rightarrow> nat" where
  "d_num x = (case x of (m, e) \<Rightarrow> if 0 \<le> e then m * 2 ^ nat e else m)"

definition d_den :: "double \<Rightarrow> nat" where
  "d_den x = (case x of (m, e) \<Rightarrow> if 0 \<le> e then 1 else 2 ^ nat (- e))"

definition int_truediv :: "nat \<Rightarrow> nat \<Rightarrow> double" where
  "int_truediv a b = to_double a b"

definition float_of_int :: "nat \<Rightarrow> double" where
  "float_of_int n = to_double n 1"

definition float_mul :: "double \<Rightarrow> double \<Rightarrow> double" where
  "float_mul x y = to_double (d_num x * d_num y) (d_den x * d_den y)"

definition int_of_float :: "double \<Rightarrow> int" where
  "int_of_float x = int (d_num x div d_den x)"

definition progress_percent :: "nat \<Rightarrow> nat \<Rightarrow> int" where
  "progress_percent completed_operations total_operations =
     int_of_float (float_mul (int_truediv completed_operations total_operations)
                             (float_of_int 100))"

section \<open>Image states and undo commands\<close>

record image_state =
  path :: "string option"
  effect :: "string option"

text \<open>
  \<^verbatim>\<open>ImageProcessCommand\<close>; its \<^verbatim>\<open>window\<close> attribute is the one main window of the
  application. \<^verbatim>\<open>old_state.path\<close> is \<^verbatim>\<open>window.current_image\<close> at construction, which is
  \<^verbatim>\<open>None\<close> while no image has been loaded.
\<close>

record image_process_command =
  effect_type :: string
  old_state :: image_state
  new_state :: "image_state option"

section \<open>The effect engine and the processing thread\<close>

text \<open>
  \<^verbatim>\<open>image_processor_rust.process_image(input, effect, output, callback)\<close> is external.
  One call is described by what it passes to the progress callback and by how it ends:
  it returns a path or raises an exception.
\<close>

datatype engine_result = Returned string | Raised string

type_synonym engine = "string \<Rightarrow> string \<Rightarrow> string \<Rightarrow> int list \<times> engine_result"

text \<open>\<^verbatim>\<open>ProcessingThread\<close>; \<open>thread_effect\<close> is its attribute \<^verbatim>\<open>effect_type\<close>.\<close>

record processing_thread =
  input_path :: string
  thread_effect :: string
  output_path :: string

datatype signal = Progress int | Finished string

text \<open>
  \<^verbatim>\<open>ProcessingThread.run\<close>: the signals emitted, in order, and the message logged by the
  \<^verbatim>\<open>except Exception\<close> clause. Whatever the engine does, \<open>run\<close> itself returns normally.
\<close>

definition run :: "engine \<Rightarrow> processing_thread \<Rightarrow> signal list \<times> string option" where
  "run eng t =
     (case eng (input_path t) (thread_effect t) (output_path t) of
        (ps, Returned result_path) \<Rightarrow> (map Progress ps @ [Finished result_path], None)
      | (ps, Raised e) \<Rightarrow> (map Progress ps, Some (''Processing error: '' @ e)))"

section \<open>The main window\<close>

text \<open>A pixmap is known by the file name it was constructed from.\<close>

datatype pixmap = QPixmap "string option"

datatype event =
    Engine_Call string string string
  | Progress_Value int
  | Log_Info string
  | Log_Error string

text \<open>What \<^verbatim>\<open>Path(p).exists()\<close> and \<^verbatim>\<open>QPixmap(p).isNull()\<close> answer.\<close>

record filesystem =
  path_exists :: "string \<Rightarrow> bool"
  pixmap_is_null :: "string \<Rightarrow> bool"

text \<open>
  The window's attributes and the state of the widgets its methods write. The undo
  commands live in a store, \<open>commands\<close>, and are referred to by their index there: the
  \<^verbatim>\<open>QUndoStack\<close> (\<open>undo_stack\<close> with its \<open>undo_index\<close>) and the closure connected to a
  thread's \<^verbatim>\<open>finished\<close> signal hold the same command object. \<open>running\<close> lists the threads
  started and not yet finished, each with the command its closure captured. \<open>trace\<close>
  records, in order, the engine calls, the values given to \<^verbatim>\<open>progress_bar.setValue\<close> and
  the log messages. Commands are only ever appended to the store, so a reference made by
  \<open>process_image\<close> stays below the length of \<open>commands\<close>.
\<close>

record main_window =
  current_image :: "string option"
  current_processed_image :: "string option"
  batch_files :: "string list"
  commands :: "image_process_command list"
  undo_stack :: "nat list"
  undo_index :: nat
  batch_processor :: batch_processor
  image_label :: "pixmap option"
  progress_visible :: bool
  progress_value :: int
  effect_buttons_enabled :: bool
  save_button_enabled :: bool
  process_batch_button_enabled :: bool
  running :: "(processing_thread \<times> nat option) list"
  trace :: "event list"

definition init_main_window :: "string \<Rightarrow> main_window" where
  "init_main_window mkdtemp =
     \<lparr>current_image = None, current_processed_image = None, batch_files = [],
      commands = [], undo_stack = [], undo_index = 0,
      batch_processor = init_batch_processor mkdtemp, image_label = None,
      progress_visible = False, progress_value = - 1, effect_buttons_enabled = False,
      save_button_enabled = False, process_batch_button_enabled = False,
      running = [], trace = []\<rparr>"

fun engine_calls :: "event list \<Rightarrow> (string \<times> string \<times> string) list" where
  "engine_calls [] = []"
| "engine_calls (Engine_Call i e out # evs) = (i, e, out) # engine_calls evs"
| "engine_calls (ev # evs) = engine_calls evs"

fun progress_values :: "event list \<Rightarrow> int list" where
  "progress_values [] = []"
| "progress_values (Progress_Value v # evs) = v # progress_values evs"
| "progress_values (ev # evs) = progress_values evs"

definition log_event :: "event \<Rightarrow> main_window \<Rightarrow> main_window" where
  "log_event ev w = w\<lparr>trace := trace w @ [ev]\<rparr>"

text \<open>\<^verbatim>\<open>QProgressBar.setValue\<close> ignores a value outside the range 0 to 100.\<close>

definition set_value :: "int \<Rightarrow> main_window \<Rightarrow> main_window" where
  "set_value v w =
     w\<lparr>progress_value := (if 0 \<le> v \<and> v \<le> 100 then v else progress_value w),
       trace := trace w @ [Progress_Value v]\<rparr>"

definition update_progress :: "int \<Rightarrow> main_window \<Rightarrow> main_window" where
  "update_progress v w = set_value v w"

text \<open>
  A method of the window either returns or raises; either way it leaves a window state
  behind. An outcome is the exception raised, if any, with that state.
\<close>

datatype py_error = TypeError

type_synonym outcome = "py_error option \<times> main_window"

text \<open>The statements after a call run only when the call has returned.\<close>

definition and_then :: "outcome \<Rightarrow> (main_window \<Rightarrow> outcome) \<Rightarrow> outcome" where
  "and_then r f = (case r of (None, w) \<Rightarrow> f w | (Some e, w) \<Rightarrow> (Some e, w))"

text \<open>
  \<^verbatim>\<open>load_specific_image\<close> assigns \<^verbatim>\<open>current_image\<close> first. \<^verbatim>\<open>Gui.QPixmap(file_name)\<close> then
  raises \<^verbatim>\<open>TypeError\<close> when \<^verbatim>\<open>file_name\<close> is \<^verbatim>\<open>None\<close>, so that neither \<^verbatim>\<open>setPixmap\<close> nor the
  enabling of the effect buttons is reached; for a string, the empty one too, it
  constructs a pixmap and the method runs to its end.
\<close>

definition load_specific_image :: "string option \<Rightarrow> main_window \<Rightarrow> outcome" where
  "load_specific_image file_name w =
     (let w1 = w\<lparr>current_image := file_name\<rparr>
      in case file_name of
           None \<Rightarrow> (Some TypeError, w1)
         | Some f \<Rightarrow>
             (None, w1\<lparr>image_label := Some (QPixmap (Some f)),
                        effect_buttons_enabled := True\<rparr>))"

text \<open>\<^verbatim>\<open>if not self.current_image: return\<close> leaves on \<^verbatim>\<open>None\<close> and on the empty string.\<close>

definition process_image_internal ::
    "string \<Rightarrow> nat option \<Rightarrow> main_window \<Rightarrow> main_window" where
  "process_image_internal eff command w =
     (case current_image w of
        None \<Rightarrow> w
      | Some img \<Rightarrow>
          if img = [] then w
          else
            let temp_output = get_temp_path (batch_processor w) img;
                thread = \<lparr>input_path = img, thread_effect = eff, output_path = temp_output\<rparr>
            in w\<lparr>progress_visible := True, running := running w @ [(thread, command)]\<rparr>)"

definition processing_complete ::
    "filesystem \<Rightarrow> string \<Rightarrow> nat option \<Rightarrow> main_window \<Rightarrow> main_window" where
  "processing_complete fs result_path command w =
     (let w1 = log_event (Log_Info (''Processing complete. Result saved to: '' @ result_path)) w;
          w2 = w1\<lparr>progress_visible := False\<rparr>
      in if \<not> path_exists fs result_path then
           log_event (Log_Error (''Error: Result file does not exist: '' @ result_path)) w2
         else if pixmap_is_null fs result_path then
           log_event (Log_Error (''Error: Failed to load result image: '' @ result_path)) w2
         else
           let w3 = w2\<lparr>image_label := Some (QPixmap (Some result_path)),
                       current_processed_image := Some result_path\<rparr>;
               w4 = (case command of
                       None \<Rightarrow> w3
                     | Some c \<Rightarrow>
                         w3\<lparr>commands := (commands w3)
                              [c := (commands w3 ! c)
                                 \<lparr>new_state :=
                                    Some \<lparr>path = Some result_path,
                                          effect = Some (effect_type (commands w3 ! c))\<rparr>\<rparr>]\<rparr>)
           in w4\<lparr>save_button_enabled := True\<rparr>)"

text \<open>
  A started thread runs to its end: the engine is called, and the signals reach the
  slots connected in \<^verbatim>\<open>process_image_internal\<close>.
\<close>

definition deliver :: "filesystem \<Rightarrow> nat option \<Rightarrow> signal \<Rightarrow> main_window \<Rightarrow> main_window" where
  "deliver fs command s w =
     (case s of
        Progress v \<Rightarrow> update_progress v w
      | Finished result_path \<Rightarrow> processing_complete fs result_path command w)"

definition thread_finished ::
    "engine \<Rightarrow> filesystem \<Rightarrow> nat \<Rightarrow> main_window \<Rightarrow> main_window" where
  "thread_finished eng fs k w =
     (if length (running w) \<le> k then w
      else
        let (t, command) = running w ! k;
            (signals, logged) = run eng t;
            w1 = w\<lparr>running := take k (running w) @ drop (Suc k) (running w)\<rparr>;
            w2 = log_event (Engine_Call (input_path t) (thread_effect t) (output_path t)) w1;
            w3 = (case logged of None \<Rightarrow> w2 | Some msg \<Rightarrow> log_event (Log_Error msg) w2)
        in fold (deliver fs command) signals w3)"

subsection \<open>Undo commands and the undo stack\<close>

text \<open>\<^verbatim>\<open>ImageProcessCommand.redo\<close> and \<^verbatim>\<open>ImageProcessCommand.undo\<close> of the command \<open>c\<close>.\<close>

definition cmd_redo :: "nat \<Rightarrow> main_window \<Rightarrow> outcome" where
  "cmd_redo c w =
     (case new_state (commands w ! c) of
        Some s \<Rightarrow> load_specific_image (path s) w
      | None \<Rightarrow> (None, process_image_internal (effect_type (commands w ! c)) (Some c) w))"

definition cmd_undo :: "nat \<Rightarrow> main_window \<Rightarrow> outcome" where
  "cmd_undo c w = load_specific_image (path (old_state (commands w ! c))) w"

text \<open>
  \<^verbatim>\<open>QUndoStack\<close>: \<open>push\<close> runs the command's \<open>redo\<close>, drops the commands above the index
  and appends the command; \<open>undo\<close> and \<open>redo\<close> do nothing at the ends of the stack. When
  the command's \<open>undo\<close> or \<open>redo\<close> raises, the stack operation does not complete: the
  model ends it there, with the index as it was, and reports the exception. What the
  binding and Qt do with an exception raised in the override is not part of the source.
\<close>

definition stack_push :: "nat \<Rightarrow> main_window \<Rightarrow> outcome" where
  "stack_push c w =
     and_then (cmd_redo c w)
       (\<lambda>w1. (None, w1\<lparr>undo_stack := take (undo_index w1) (undo_stack w1) @ [c],
                        undo_index := undo_index w1 + 1\<rparr>))"

definition stack_undo :: "main_window \<Rightarrow> outcome" where
  "stack_undo w =
     (if undo_index w = 0 \<or> length (undo_stack w) < undo_index w then (None, w)
      else
        let idx = undo_index w - 1
        in and_then (cmd_undo (undo_stack w ! idx) w)
             (\<lambda>w1. (None, w1\<lparr>undo_index := idx\<rparr>)))"

definition stack_redo :: "main_window \<Rightarrow> outcome" where
  "stack_redo w =
     (if length (undo_stack w) \<le> undo_index w then (None, w)
      else
        and_then (cmd_redo (undo_stack w ! undo_index w) w)
          (\<lambda>w1. (None, w1\<lparr>undo_index := undo_index w + 1\<rparr>)))"

definition process_image :: "string \<Rightarrow> main_window \<Rightarrow> outcome" where
  "process_image eff w =
     (let command = \<lparr>effect_type = eff,
                     old_state = \<lparr>path = current_image w, effect = None\<rparr>,
                     new_state = None\<rparr>;
          c = length (commands w)
      in and_then (stack_push c (w\<lparr>commands := commands w @ [command]\<rparr>))
           (\<lambda>w1. (None,
              w1\<lparr>batch_processor := add_effect eff (batch_processor w1),
                  save_button_enabled := True, process_batch_button_enabled := True\<rparr>)))"

subsection \<open>Batch processing\<close>

text \<open>
  \<^verbatim>\<open>thread.run()\<close> called directly: the engine runs on the caller's thread, nothing is
  connected to the signals, and an exception of the engine ends in the log of \<open>run\<close>.
\<close>

definition run_synchronously :: "engine \<Rightarrow> processing_thread \<Rightarrow> main_window \<Rightarrow> main_window" where
  "run_synchronously eng t w =
     (let w1 = log_event (Engine_Call (input_path t) (thread_effect t) (output_path t)) w
      in case snd (run eng t) of None \<Rightarrow> w1 | Some msg \<Rightarrow> log_event (Log_Error msg) w1)"

text \<open>
  The inner loop of \<^verbatim>\<open>process_batch\<close> over the effects queue, for one file. The state is
  \<^verbatim>\<open>current_input\<close>, \<^verbatim>\<open>completed_operations\<close> and the window. The engine may behave
  differently at every step: \<open>engs k\<close> is the engine as it is when \<open>k\<close> operations of the
  batch are completed. \<^verbatim>\<open>QApplication.processEvents()\<close> is taken to find no user input
  waiting. No statement of the loop body raises, so the \<^verbatim>\<open>except\<close> clause of
  \<^verbatim>\<open>process_batch\<close> has nothing to catch and the loops run to their end.
\<close>

fun batch_effects ::
    "(nat \<Rightarrow> engine) \<Rightarrow> string \<Rightarrow> nat \<Rightarrow> string list \<Rightarrow>
     string \<times> nat \<times> main_window \<Rightarrow> string \<times> nat \<times> main_window" where
  "batch_effects engs file total_operations [] st = st"
| "batch_effects engs file total_operations (eff # effs) (current_input, completed, w) =
     (let temp_output = get_temp_path (batch_processor w) file;
          thread = \<lparr>input_path = current_input, thread_effect = eff,
                    output_path = temp_output\<rparr>;
          w1 = run_synchronously (engs completed) thread w;
          completed' = completed + 1;
          w2 = set_value (progress_percent completed' total_operations) w1
      in batch_effects engs file total_operations effs (temp_output, completed', w2))"

fun batch_loop ::
    "(nat \<Rightarrow> engine) \<Rightarrow> nat \<Rightarrow> string list \<Rightarrow> nat \<times> main_window \<Rightarrow> nat \<times> main_window" where
  "batch_loop engs total_operations [] st = st"
| "batch_loop engs total_operations (file # files) (completed, w) =
     (case batch_effects engs file total_operations (effects_queue (batch_processor w))
             (file, completed, w) of
        (current_input, completed', w1) \<Rightarrow>
          batch_loop engs total_operations files
            (completed',
             w1\<lparr>batch_processor := (batch_processor w1)
                  \<lparr>processed_images :=
                     AList.update file current_input
                       (processed_images (batch_processor w1))\<rparr>\<rparr>))"

definition process_batch :: "(nat \<Rightarrow> engine) \<Rightarrow> main_window \<Rightarrow> main_window" where
  "process_batch engs w =
     (if batch_files w = [] \<or> effects_queue (batch_processor w) = [] then
        log_event (Log_Info ''No files or effects to process'') w
      else
        let w1 = set_value 0 (w\<lparr>progress_visible := True\<rparr>);
            total_operations = length (batch_files w) * length (effects_queue (batch_processor w));
            w2 = snd (batch_loop engs total_operations (batch_files w) (0, w1));
            w3 = log_event (Log_Info ''Batch processing complete!'')
                   (w2\<lparr>save_button_enabled := True\<rparr>)
        in w3\<lparr>progress_visible := False\<rparr>)"

subsection \<open>The order of the engine calls\<close>

text \<open>
  The engine calls of one file, as the batch algorithm is described: call \<open>j\<close> applies
  effect \<open>j\<close> of the queue and writes to the temporary path of the file; the first call
  reads the file itself, every later call the temporary path.
\<close>

definition file_calls ::
    "string \<Rightarrow> string \<Rightarrow> string list \<Rightarrow> (string \<times> string \<times> string) list" where
  "file_calls temp cur effs =
     map (\<lambda>j. (if j = 0 then cur else temp, effs ! j, temp)) [0..<length effs]"

subsection \<open>Concrete engines and windows\<close>

definition engine_ok :: engine where
  "engine_ok i e out = ([0, 50, 100], Returned out)"

definition engine_fails :: engine where
  "engine_fails i e out = ([], Raised ''unsupported effect'')"

definition engines_ok :: "nat \<Rightarrow> engine" where
  "engines_ok k = engine_ok"

definition engines_first_fails :: "nat \<Rightarrow> engine" where
  "engines_first_fails k = (if k = 0 then engine_fails else engine_ok)"

definition files_valid :: filesystem where
  "files_valid = \<lparr>path_exists = (\<lambda>p. True), pixmap_is_null = (\<lambda>p. False)\<rparr>"

definition files_missing :: filesystem where
  "files_missing = \<lparr>path_exists = (\<lambda>p. False), pixmap_is_null = (\<lambda>p. True)\<rparr>"

definition batch_window :: "string list \<Rightarrow> string list \<Rightarrow> main_window" where
  "batch_window files effs =
     (init_main_window ''/tmp/tmpk3x'')
       \<lparr>batch_files := files,
        batch_processor := \<lparr>effects_queue = effs, temp_dir = ''/tmp/tmpk3x'',
                            processed_images = []\<rparr>\<rparr>"

subsection \<open>Sequences of user actions\<close>

text \<open>The command at position \<open>k\<close> of the undo stack.\<close>

definition stack_command :: "main_window \<Rightarrow> nat \<Rightarrow> image_process_command" where
  "stack_command w k = commands w ! (undo_stack w ! k)"

text \<open>An action done \<open>n\<close> times in a row, as far as it returns.\<close>

fun repeatedly :: "nat \<Rightarrow> (main_window \<Rightarrow> outcome) \<Rightarrow> main_window \<Rightarrow> outcome" where
  "repeatedly 0 f w = (None, w)"
| "repeatedly (Suc n) f w = and_then (repeatedly n f w) f"

definition undo_then_redo :: "nat \<Rightarrow> main_window \<Rightarrow> outcome" where
  "undo_then_redo n w = and_then (repeatedly n stack_undo w) (repeatedly n stack_redo)"

text \<open>
  One interactive edit that runs to completion: the user may first open another image,
  then \<open>process_image\<close> is called, and the thread it started (the last of \<open>running\<close>)
  finishes before anything else happens.
\<close>

definition apply_effect ::
    "string option \<times> string \<times> engine \<times> filesystem \<Rightarrow> main_window \<Rightarrow> outcome" where
  "apply_effect step w =
     (case step of
        (opened, eff, eng, fs) \<Rightarrow>
          and_then (case opened of None \<Rightarrow> (None, w) | Some p \<Rightarrow> load_specific_image (Some p) w)
            (\<lambda>w1. and_then (process_image eff w1)
               (\<lambda>w2. (None, thread_finished eng fs (length (running w1)) w2))))"

definition apply_effects ::
    "(string option \<times> string \<times> engine \<times> filesystem) list \<Rightarrow> main_window \<Rightarrow> outcome" where
  "apply_effects steps w = fold (\<lambda>step r. and_then r (apply_effect step)) steps (None, w)"

text \<open>A fresh window in which the image \<open>a.png\<close> has been opened.\<close>

definition a_png_loaded :: main_window where
  "a_png_loaded = snd (load_specific_image (Some ''a.png'') (init_main_window ''/tmp/tmpk3x''))"

text \<open>The image \<open>a.png\<close> is loaded, \<open>grayscale\<close> is applied and its thread has finished.\<close>

definition grayscale_applied :: main_window where
  "grayscale_applied =
     snd (apply_effect (None, ''grayscale'', engine_ok, files_valid) a_png_loaded)"

text \<open>
  \<open>blur\<close> is applied to \<open>a.png\<close>, the image \<open>b.png\<close> is opened and \<open>sepia\<close> is applied to it
  while the first thread is still running; the second thread finishes first.
\<close>

definition edits_finished_out_of_order :: main_window where
  "edits_finished_out_of_order =
     (let w1 = snd (process_image ''blur'' a_png_loaded);
          w2 = snd (load_specific_image (Some ''b.png'') w1);
          w3 = snd (process_image ''sepia'' w2);
          w4 = thread_finished engine_ok files_valid 1 w3
      in thread_finished engine_ok files_valid 0 w4)"


section \<open>Facts about path names\<close>

lemma split_sep_not_Nil: "split_sep s \<noteq> []"
  by (induction s) (auto split: list.splits)

lemma split_sep_append: "split_sep (a @ CHR ''/'' # b) = split_sep a @ split_sep b"
  by (induction a) (auto split: list.splits simp: split_sep_not_Nil)

lemma split_sep_no_sep: "CHR ''/'' \<notin> set s \<Longrightarrow> split_sep s = [s]"
  by (induction s) auto

lemma split_sep_pieces: "w \<in> set (split_sep s) \<Longrightarrow> CHR ''/'' \<notin> set w"
proof (induction s arbitrary: w)
  case Nil
  then show ?case by simp
next
  case (Cons c cs)
  show ?case
  proof (cases "c = CHR ''/''")
    case True
    with Cons show ?thesis by auto
  next
    case False
    obtain v vs where vs: "split_sep cs = v # vs"
      using split_sep_not_Nil [of cs] by (cases "split_sep cs") auto
    with False Cons.prems have "w = c # v \<or> w \<in> set vs" by simp
    with False vs Cons.IH show ?thesis by auto
  qed
qed

lemma path_name_no_sep: "CHR ''/'' \<notin> set (path_name (Path p))"
proof (cases "p_tail (Path p) = []")
  case True
  then show ?thesis by (simp add: path_name_def)
next
  case False
  then have "last (p_tail (Path p)) \<in> set (p_tail (Path p))" by simp
  then have "last (p_tail (Path p)) \<in> set (split_sep p)" by (simp add: Path_def)
  with False show ?thesis by (simp add: path_name_def split_sep_pieces)
qed

lemma join_sep_snoc: "xs \<noteq> [] \<Longrightarrow> join_sep (xs @ [k]) = join_sep xs @ CHR ''/'' # k"
  by (induction xs rule: join_sep.induct) auto

lemma Path_temp_key:
  assumes "CHR ''/'' \<notin> set n"
  shows "Path (''temp_'' @ n) = \<lparr>p_root = [], p_tail = [''temp_'' @ n]\<rparr>"
proof -
  have "CHR ''/'' \<notin> set (''temp_'' @ n)" using assms by simp
  then have "split_sep (''temp_'' @ n) = [''temp_'' @ n]" by (rule split_sep_no_sep)
  then show ?thesis by (simp add: Path_def splitroot_def)
qed

lemma get_temp_path_parts:
  "get_temp_path bp p =
     path_str \<lparr>p_root = p_root (Path (temp_dir bp)),
               p_tail = p_tail (Path (temp_dir bp)) @ [''temp_'' @ path_name (Path p)]\<rparr>"
proof -
  have "Path (''temp_'' @ path_name (Path p)) =
      \<lparr>p_root = [], p_tail = [''temp_'' @ path_name (Path p)]\<rparr>"
    by (rule Path_temp_key [OF path_name_no_sep])
  then show ?thesis
    unfolding get_temp_path_def truediv_def Let_def by simp
qed

lemma path_name_file:
  assumes "b \<noteq> []" "b \<noteq> ''.''" "CHR ''/'' \<notin> set b"
  shows "path_name (Path (dir @ CHR ''/'' # b)) = b"
  using assms by (simp add: path_name_def Path_def split_sep_append split_sep_no_sep)

section \<open>Facts about the batch loops\<close>

lemma engine_calls_append: "engine_calls (a @ b) = engine_calls a @ engine_calls b"
  by (induction a rule: engine_calls.induct) auto

lemma progress_values_append: "progress_values (a @ b) = progress_values a @ progress_values b"
  by (induction a rule: progress_values.induct) auto

lemma run_synchronously_frame:
  "batch_processor (run_synchronously eng t w) = batch_processor w"
  "engine_calls (trace (run_synchronously eng t w)) =
     engine_calls (trace w) @ [(input_path t, thread_effect t, output_path t)]"
  "progress_values (trace (run_synchronously eng t w)) = progress_values (trace w)"
  by (auto simp: run_synchronously_def log_event_def Let_def engine_calls_append
      progress_values_append split: option.splits)

lemma set_value_frame:
  "batch_processor (set_value v w) = batch_processor w"
  "engine_calls (trace (set_value v w)) = engine_calls (trace w)"
  "progress_values (trace (set_value v w)) = progress_values (trace w) @ [v]"
  by (auto simp: set_value_def engine_calls_append progress_values_append)

lemma file_calls_Nil: "file_calls temp cur [] = []"
  by (simp add: file_calls_def)

lemma file_calls_Cons:
  "file_calls temp cur (e # es) = (cur, e, temp) # file_calls temp temp es"
proof -
  have "[0..<length (e # es)] = 0 # map Suc [0..<length es]"
    by (simp add: upt_conv_Cons map_Suc_upt del: upt_Suc)
  then show ?thesis
    unfolding file_calls_def by (simp add: comp_def del: upt_Suc)
qed

lemma batch_effects_result:
  "batch_effects engs file tot effs (cur, n, w) = (cur', n', w') \<Longrightarrow>
     cur' = (if effs = [] then cur else get_temp_path (batch_processor w) file) \<and>
     n' = n + length effs \<and>
     batch_processor w' = batch_processor w \<and>
     engine_calls (trace w') =
       engine_calls (trace w) @ file_calls (get_temp_path (batch_processor w) file) cur effs \<and>
     progress_values (trace w') =
       progress_values (trace w) @ map (\<lambda>k. progress_percent (n + k + 1) tot) [0..<length effs]"
proof (induction effs arbitrary: cur n w)
  case Nil
  then show ?case by (simp add: file_calls_Nil)
next
  case (Cons e es)
  let ?temp = "get_temp_path (batch_processor w) file"
  let ?t = "\<lparr>input_path = cur, thread_effect = e, output_path = ?temp\<rparr>"
  let ?w2 = "set_value (progress_percent (n + 1) tot) (run_synchronously (engs n) ?t w)"
  from Cons.prems have step: "batch_effects engs file tot es (?temp, n + 1, ?w2) = (cur', n', w')"
    by (simp add: Let_def)
  have bp: "batch_processor ?w2 = batch_processor w"
    by (simp add: set_value_frame run_synchronously_frame)
  have ups: "map (\<lambda>k. progress_percent (n + k + 1) tot) [0..<length (e # es)] =
      progress_percent (n + 1) tot # map (\<lambda>k. progress_percent (n + 1 + k + 1) tot) [0..<length es]"
    by (simp add: upt_conv_Cons map_Suc_upt [symmetric] comp_def del: upt_Suc)
  from Cons.IH [OF step] show ?case
    unfolding ups
    by (simp add: bp file_calls_Cons set_value_frame run_synchronously_frame)
qed


lemma get_temp_path_cong: "temp_dir a = temp_dir b \<Longrightarrow> get_temp_path a f = get_temp_path b f"
  by (simp add: get_temp_path_def)

lemma map_upt_add:
  "map f [0..<a + b] = map f [0..<a] @ map (\<lambda>k. f (a + k)) [0..<b]"
  by (induction b) simp_all

lemma batch_loop_result:
  assumes "batch_loop engs tot files (n, w) = (n', w')"
    and "effects_queue (batch_processor w) = effs" and "effs \<noteq> []"
    and "temp_dir (batch_processor w) = temp_dir bp0"
  shows "n' = n + length files * length effs \<and>
     effects_queue (batch_processor w') = effs \<and>
     temp_dir (batch_processor w') = temp_dir bp0 \<and>
     processed_images (batch_processor w') =
       fold (\<lambda>f. AList.update f (get_temp_path bp0 f)) files
         (processed_images (batch_processor w)) \<and>
     engine_calls (trace w') =
       engine_calls (trace w) @
       concat (map (\<lambda>f. file_calls (get_temp_path bp0 f) f effs) files) \<and>
     progress_values (trace w') =
       progress_values (trace w) @
       map (\<lambda>k. progress_percent (n + k + 1) tot) [0..<length files * length effs]"
  using assms
proof (induction files arbitrary: n w)
  case Nil
  then show ?case by simp
next
  case (Cons fl files)
  obtain cur n1 w1 where be:
    "batch_effects engs fl tot effs (fl, n, w) = (cur, n1, w1)"
    using prod_cases3 by blast
  from batch_effects_result [OF be] \<open>effs \<noteq> []\<close>
  have r1: "cur = get_temp_path (batch_processor w) fl"
    and r2: "n1 = n + length effs"
    and r3: "batch_processor w1 = batch_processor w"
    and r4: "engine_calls (trace w1) =
       engine_calls (trace w) @ file_calls (get_temp_path (batch_processor w) fl) fl effs"
    and r5: "progress_values (trace w1) =
       progress_values (trace w) @ map (\<lambda>k. progress_percent (n + k + 1) tot) [0..<length effs]"
    by simp_all
  have tp: "get_temp_path (batch_processor w) fl = get_temp_path bp0 fl"
    using Cons.prems(4) by (rule get_temp_path_cong)
  let ?w2 = "w1\<lparr>batch_processor := (batch_processor w1)
      \<lparr>processed_images := AList.update fl cur (processed_images (batch_processor w1))\<rparr>\<rparr>"
  from Cons.prems(1,2) be have step: "batch_loop engs tot files (n1, ?w2) = (n', w')"
    by simp
  have q: "effects_queue (batch_processor ?w2) = effs"
    and d: "temp_dir (batch_processor ?w2) = temp_dir bp0"
    using r3 Cons.prems(2,4) by simp_all
  note ih = Cons.IH [OF step q \<open>effs \<noteq> []\<close> d]
  have pv: "map (\<lambda>k. progress_percent (n + k + 1) tot) [0..<length (fl # files) * length effs] =
      map (\<lambda>k. progress_percent (n + k + 1) tot) [0..<length effs] @
      map (\<lambda>k. progress_percent (n + length effs + k + 1) tot) [0..<length files * length effs]"
    by (simp add: map_upt_add add.assoc)
  have pi: "processed_images (batch_processor ?w2) =
      AList.update fl (get_temp_path bp0 fl) (processed_images (batch_processor w))"
    using r1 r3 tp by simp
  have tr: "trace ?w2 = trace w1" by simp
  show ?case
    unfolding pv using ih
    by (simp only: pi tr r2 r4 r5 tp fold_simps list.map concat.simps append_assoc
        length_Cons mult_Suc add.assoc add.commute [of "length effs"]) 
qed

lemma length_file_calls: "length (file_calls temp cur effs) = length effs"
  by (simp add: file_calls_def)

lemma nth_file_calls:
  "j < length effs \<Longrightarrow>
     file_calls temp cur effs ! j = (if j = 0 then cur else temp, effs ! j, temp)"
  by (simp add: file_calls_def)

lemma length_concat_uniform:
  "\<forall>x\<in>set xs. length (g x) = m \<Longrightarrow> length (concat (map g xs)) = length xs * m"
  by (induction xs) auto

lemma nth_concat_uniform:
  "\<forall>x\<in>set xs. length (g x) = m \<Longrightarrow> i < length xs \<Longrightarrow> j < m \<Longrightarrow>
     concat (map g xs) ! (i * m + j) = g (xs ! i) ! j"
proof (induction xs arbitrary: i)
  case Nil
  then show ?case by simp
next
  case (Cons x xs)
  show ?case
  proof (cases i)
    case 0
    with Cons.prems show ?thesis by (simp add: nth_append)
  next
    case (Suc i')
    with Cons.prems have "concat (map g xs) ! (i' * m + j) = g (xs ! i') ! j"
      by (intro Cons.IH) auto
    moreover have "Suc i' * m + j = length (g x) + (i' * m + j)"
      using Cons.prems by simp
    ultimately show ?thesis
      using Suc by (simp only: list.map concat.simps nth_append_length_plus nth_Cons_Suc)
  qed
qed

lemma map_of_fold_update:
  "map_of (fold (\<lambda>f. AList.update f (t f)) files al) k =
     (if k \<in> set files then Some (t k) else map_of al k)"
proof (induction files arbitrary: al rule: rev_induct)
  case Nil
  then show ?case by simp
next
  case (snoc f files)
  then show ?case by (simp add: update_conv')
qed

lemma process_batch_result:
  assumes "batch_files w \<noteq> []" and "effects_queue (batch_processor w) \<noteq> []"
  shows "processed_images (batch_processor (process_batch engs w)) =
       fold (\<lambda>f. AList.update f (get_temp_path (batch_processor w) f)) (batch_files w)
         (processed_images (batch_processor w)) \<and>
     engine_calls (trace (process_batch engs w)) =
       engine_calls (trace w) @
       concat (map (\<lambda>f. file_calls (get_temp_path (batch_processor w) f) f
                           (effects_queue (batch_processor w))) (batch_files w)) \<and>
     progress_values (trace (process_batch engs w)) =
       progress_values (trace w) @ 0 #
       map (\<lambda>k. progress_percent (k + 1)
                  (length (batch_files w) * length (effects_queue (batch_processor w))))
         [0..<length (batch_files w) * length (effects_queue (batch_processor w))] \<and>
     effects_queue (batch_processor (process_batch engs w)) = effects_queue (batch_processor w) \<and>
     temp_dir (batch_processor (process_batch engs w)) = temp_dir (batch_processor w)"
proof -
  let ?w1 = "set_value 0 (w\<lparr>progress_visible := True\<rparr>)"
  let ?tot = "length (batch_files w) * length (effects_queue (batch_processor w))"
  obtain n' w' where bl: "batch_loop engs ?tot (batch_files w) (0, ?w1) = (n', w')"
    using prod.exhaust by blast
  have bp: "batch_processor ?w1 = batch_processor w"
    by (simp add: set_value_frame)
  have r: "processed_images (batch_processor w') =
       fold (\<lambda>f. AList.update f (get_temp_path (batch_processor w) f)) (batch_files w)
         (processed_images (batch_processor w)) \<and>
     engine_calls (trace w') =
       engine_calls (trace w) @
       concat (map (\<lambda>f. file_calls (get_temp_path (batch_processor w) f) f
                           (effects_queue (batch_processor w))) (batch_files w)) \<and>
     progress_values (trace w') =
       (progress_values (trace w) @ [0]) @
       map (\<lambda>k. progress_percent (0 + k + 1) ?tot) [0..<?tot] \<and>
     effects_queue (batch_processor w') = effects_queue (batch_processor w) \<and>
     temp_dir (batch_processor w') = temp_dir (batch_processor w)"
    using batch_loop_result [OF bl, of "effects_queue (batch_processor w)" "batch_processor w"]
      assms(2)
    by (simp add: bp set_value_frame)
  have pb: "process_batch engs w =
      (log_event (Log_Info ''Batch processing complete!'') (w'\<lparr>save_button_enabled := True\<rparr>))
        \<lparr>progress_visible := False\<rparr>"
    using assms bl by (simp add: process_batch_def Let_def)
  show ?thesis
    unfolding pb using r
    by (simp add: log_event_def engine_calls_append progress_values_append)
qed

lemma process_batch_calls:
  assumes "batch_files w = files" and "effects_queue (batch_processor w) = effs"
    and "files \<noteq> []" and "effs \<noteq> []"
    and "calls = drop (length (engine_calls (trace w)))
                   (engine_calls (trace (process_batch engs w)))"
  shows "take (length (engine_calls (trace w))) (engine_calls (trace (process_batch engs w))) =
           engine_calls (trace w)"
    and "length calls = length files * length effs"
    and "i < length files \<Longrightarrow> j < length effs \<Longrightarrow>
           calls ! (i * length effs + j) =
             (if j = 0 then files ! i else get_temp_path (batch_processor w) (files ! i),
              effs ! j, get_temp_path (batch_processor w) (files ! i))"
proof -
  let ?g = "\<lambda>f. file_calls (get_temp_path (batch_processor w) f) f effs"
  have ec: "engine_calls (trace (process_batch engs w)) =
      engine_calls (trace w) @ concat (map ?g files)"
    using process_batch_result [of w engs] assms(1-4) by simp
  have calls: "calls = concat (map ?g files)"
    using assms(5) ec by simp
  have uni: "\<forall>x\<in>set files. length (?g x) = length effs"
    by (simp add: length_file_calls)
  show "take (length (engine_calls (trace w))) (engine_calls (trace (process_batch engs w))) =
           engine_calls (trace w)"
    using ec by simp
  show "length calls = length files * length effs"
    unfolding calls using uni by (rule length_concat_uniform)
  show "calls ! (i * length effs + j) =
             (if j = 0 then files ! i else get_temp_path (batch_processor w) (files ! i),
              effs ! j, get_temp_path (batch_processor w) (files ! i))"
    if "i < length files" "j < length effs"
    unfolding calls using nth_concat_uniform [OF uni that] that(2)
    by (simp add: nth_file_calls)
qed

lemmas path_eval = get_temp_path_def truediv_def Path_def path_str_def path_name_def
  splitroot_def Let_def

lemmas float_eval = progress_percent_def int_of_float_def float_mul_def int_truediv_def
  float_of_int_def to_double_def d_num_def d_den_def round_half_even_def Let_def

lemma progress_percent_of_6:
  "progress_percent 1 6 = 16" "progress_percent 2 6 = 33" "progress_percent 3 6 = 50"
  "progress_percent 4 6 = 66" "progress_percent 5 6 = 83" "progress_percent 6 6 = 100"
  by (simp_all add: float_eval)

lemma progress_percent_of_6_Suc:
  "progress_percent (Suc 0) 6 = 16" "progress_percent (Suc (Suc 0)) 6 = 33"
  using progress_percent_of_6(1,2) by (simp_all add: numeral_2_eq_2)

lemma process_batch_progress_2_3:
  assumes "length (batch_files w) = 2" and "length (effects_queue (batch_processor w)) = 3"
  shows "progress_values (trace (process_batch engs w)) =
           progress_values (trace w) @ [0, 16, 33, 50, 66, 83, 100]"
proof -
  from assms have ne: "batch_files w \<noteq> []" "effects_queue (batch_processor w) \<noteq> []"
    by auto
  have six: "[0..<6] = [0, 1, 2, 3, 4, 5::nat]"
    by (simp add: upt_rec)
  have "progress_values (trace (process_batch engs w)) =
      progress_values (trace w) @ 0 # map (\<lambda>k. progress_percent (k + 1) 6) [0..<6]"
    using process_batch_result [OF ne, of engs] assms by simp
  then show ?thesis
    unfolding six by (simp add: progress_percent_of_6 progress_percent_of_6_Suc)
qed

lemma batch_window_simps:
  "batch_files (batch_window files effs) = files"
  "effects_queue (batch_processor (batch_window files effs)) = effs"
  "temp_dir (batch_processor (batch_window files effs)) = ''/tmp/tmpk3x''"
  "processed_images (batch_processor (batch_window files effs)) = []"
  "trace (batch_window files effs) = []"
  by (simp_all add: batch_window_def init_main_window_def)

lemma temp_path_examples:
  "temp_dir bp = ''/tmp/tmpk3x'' \<Longrightarrow> get_temp_path bp ''a.png'' = ''/tmp/tmpk3x/temp_a.png''"
  "temp_dir bp = ''/tmp/tmpk3x'' \<Longrightarrow> get_temp_path bp ''b.png'' = ''/tmp/tmpk3x/temp_b.png''"
  "temp_dir bp = ''/tmp/tmpk3x'' \<Longrightarrow> get_temp_path bp ''x/a.png'' = ''/tmp/tmpk3x/temp_a.png''"
  "temp_dir bp = ''/tmp/tmpk3x'' \<Longrightarrow> get_temp_path bp ''y/a.png'' = ''/tmp/tmpk3x/temp_a.png''"
  by (simp_all add: path_eval)

section \<open>Facts about the window, the threads and the undo stack\<close>

lemma and_then_simps:
  "and_then (None, w) f = f w"
  "and_then (Some e, w) f = (Some e, w)"
  by (simp_all add: and_then_def)

lemma load_specific_image_Some:
  "load_specific_image (Some f) w =
     (None, w\<lparr>current_image := Some f, image_label := Some (QPixmap (Some f)),
               effect_buttons_enabled := True\<rparr>)"
  by (simp add: load_specific_image_def)

lemma load_specific_image_None:
  "load_specific_image None w = (Some TypeError, w\<lparr>current_image := None\<rparr>)"
  by (simp add: load_specific_image_def)

lemma load_specific_image_frame:
  "current_image (snd (load_specific_image f w)) = f"
  "commands (snd (load_specific_image f w)) = commands w"
  "undo_stack (snd (load_specific_image f w)) = undo_stack w"
  "undo_index (snd (load_specific_image f w)) = undo_index w"
  "running (snd (load_specific_image f w)) = running w"
  "trace (snd (load_specific_image f w)) = trace w"
  "batch_processor (snd (load_specific_image f w)) = batch_processor w"
  "batch_files (snd (load_specific_image f w)) = batch_files w"
  "current_processed_image (snd (load_specific_image f w)) = current_processed_image w"
  by (cases f; simp add: load_specific_image_Some load_specific_image_None)+

lemma process_image_internal_fields:
  "current_image (process_image_internal e c w) = current_image w"
  "image_label (process_image_internal e c w) = image_label w"
  "commands (process_image_internal e c w) = commands w"
  "undo_stack (process_image_internal e c w) = undo_stack w"
  "undo_index (process_image_internal e c w) = undo_index w"
  "trace (process_image_internal e c w) = trace w"
  "batch_processor (process_image_internal e c w) = batch_processor w"
  "batch_files (process_image_internal e c w) = batch_files w"
  "current_processed_image (process_image_internal e c w) = current_processed_image w"
  by (simp_all add: process_image_internal_def Let_def split: option.splits)

lemma process_image_internal_running:
  "running (process_image_internal e c w) =
     (case current_image w of
        None \<Rightarrow> running w
      | Some img \<Rightarrow>
          if img = [] then running w
          else running w @
            [(\<lparr>input_path = img, thread_effect = e,
               output_path = get_temp_path (batch_processor w) img\<rparr>, c)])"
  by (simp add: process_image_internal_def Let_def split: option.splits)

lemma process_image_eq:
  "process_image eff w =
     (None,
      (process_image_internal eff (Some (length (commands w)))
         (w\<lparr>commands := commands w @
              [\<lparr>effect_type = eff, old_state = \<lparr>path = current_image w, effect = None\<rparr>,
                new_state = None\<rparr>]\<rparr>))
        \<lparr>undo_stack := take (undo_index w) (undo_stack w) @ [length (commands w)],
         undo_index := undo_index w + 1,
         batch_processor := add_effect eff (batch_processor w),
         save_button_enabled := True, process_batch_button_enabled := True\<rparr>)"
  by (simp add: process_image_def stack_push_def cmd_redo_def Let_def and_then_simps
      process_image_internal_fields)

lemma process_image_fields:
  "fst (process_image eff w) = None"
  "commands (snd (process_image eff w)) =
     commands w @ [\<lparr>effect_type = eff, old_state = \<lparr>path = current_image w, effect = None\<rparr>,
                    new_state = None\<rparr>]"
  "undo_stack (snd (process_image eff w)) =
     take (undo_index w) (undo_stack w) @ [length (commands w)]"
  "undo_index (snd (process_image eff w)) = undo_index w + 1"
  "batch_processor (snd (process_image eff w)) = add_effect eff (batch_processor w)"
  "batch_files (snd (process_image eff w)) = batch_files w"
  "trace (snd (process_image eff w)) = trace w"
  "current_image (snd (process_image eff w)) = current_image w"
  "image_label (snd (process_image eff w)) = image_label w"
  "current_processed_image (snd (process_image eff w)) = current_processed_image w"
  by (simp_all add: process_image_eq process_image_internal_fields)

lemma process_image_running:
  "running (snd (process_image eff w)) =
     (case current_image w of
        None \<Rightarrow> running w
      | Some img \<Rightarrow>
          if img = [] then running w
          else running w @
            [(\<lparr>input_path = img, thread_effect = eff,
               output_path = get_temp_path (batch_processor w) img\<rparr>, Some (length (commands w)))])"
  by (simp add: process_image_eq process_image_internal_running split: option.splits)

lemma processing_complete_valid:
  assumes "path_exists fs r" and "\<not> pixmap_is_null fs r"
  shows "image_label (processing_complete fs r c w) = Some (QPixmap (Some r))"
    and "current_processed_image (processing_complete fs r c w) = Some r"
    and "commands (processing_complete fs r c w) =
      (case c of
         None \<Rightarrow> commands w
       | Some k \<Rightarrow> (commands w)
           [k := (commands w ! k)
              \<lparr>new_state := Some \<lparr>path = Some r, effect = Some (effect_type (commands w ! k))\<rparr>\<rparr>])"
    and "current_image (processing_complete fs r c w) = current_image w"
    and "undo_stack (processing_complete fs r c w) = undo_stack w"
    and "undo_index (processing_complete fs r c w) = undo_index w"
    and "running (processing_complete fs r c w) = running w"
    and "batch_processor (processing_complete fs r c w) = batch_processor w"
    and "engine_calls (trace (processing_complete fs r c w)) = engine_calls (trace w)"
  using assms
  by (simp_all add: processing_complete_def log_event_def Let_def engine_calls_append
      split: option.splits)

lemma fold_deliver_progress:
  "\<exists>v t. fold (deliver fs c) (map Progress ps) w = w\<lparr>progress_value := v, trace := t\<rparr> \<and>
         engine_calls t = engine_calls (trace w)"
proof (induction ps arbitrary: w)
  case Nil
  have "w = w\<lparr>progress_value := progress_value w, trace := trace w\<rparr>" by simp
  then show ?case by (metis fold_simps(1) list.simps(8))
next
  case (Cons p ps)
  let ?w1 = "update_progress p w"
  from Cons [of ?w1] obtain v t where
    f: "fold (deliver fs c) (map Progress ps) ?w1 = ?w1\<lparr>progress_value := v, trace := t\<rparr>"
    and e: "engine_calls t = engine_calls (trace ?w1)"
    by blast
  have w1: "?w1\<lparr>progress_value := v, trace := t\<rparr> = w\<lparr>progress_value := v, trace := t\<rparr>"
    by (simp add: update_progress_def set_value_def)
  have e1: "engine_calls (trace ?w1) = engine_calls (trace w)"
    by (simp add: update_progress_def set_value_frame)
  have "fold (deliver fs c) (map Progress (p # ps)) w = w\<lparr>progress_value := v, trace := t\<rparr>"
    using f w1 by (simp add: deliver_def)
  with e e1 show ?case by metis
qed

lemma thread_finished_valid:
  assumes k: "k < length (running w)" and rk: "running w ! k = (t, c)"
    and eng: "eng (input_path t) (thread_effect t) (output_path t) = (ps, Returned r)"
    and ok: "path_exists fs r" "\<not> pixmap_is_null fs r"
  shows "image_label (thread_finished eng fs k w) = Some (QPixmap (Some r))"
    and "current_processed_image (thread_finished eng fs k w) = Some r"
    and "commands (thread_finished eng fs k w) =
      (case c of
         None \<Rightarrow> commands w
       | Some i \<Rightarrow> (commands w)
           [i := (commands w ! i)
              \<lparr>new_state := Some \<lparr>path = Some r, effect = Some (effect_type (commands w ! i))\<rparr>\<rparr>])"
    and "current_image (thread_finished eng fs k w) = current_image w"
    and "undo_stack (thread_finished eng fs k w) = undo_stack w"
    and "undo_index (thread_finished eng fs k w) = undo_index w"
    and "running (thread_finished eng fs k w) = take k (running w) @ drop (Suc k) (running w)"
    and "batch_processor (thread_finished eng fs k w) = batch_processor w"
    and "engine_calls (trace (thread_finished eng fs k w)) =
      engine_calls (trace w) @ [(input_path t, thread_effect t, output_path t)]"
proof -
  let ?w2 = "log_event (Engine_Call (input_path t) (thread_effect t) (output_path t))
      (w\<lparr>running := take k (running w) @ drop (Suc k) (running w)\<rparr>)"
  obtain v tr where
    f: "fold (deliver fs c) (map Progress ps) ?w2 = ?w2\<lparr>progress_value := v, trace := tr\<rparr>"
    and e: "engine_calls tr = engine_calls (trace ?w2)"
    using fold_deliver_progress by blast
  have tf: "thread_finished eng fs k w =
      processing_complete fs r c (?w2\<lparr>progress_value := v, trace := tr\<rparr>)"
    using k rk eng f by (simp add: thread_finished_def run_def Let_def deliver_def)
  have e2: "engine_calls tr =
      engine_calls (trace w) @ [(input_path t, thread_effect t, output_path t)]"
    using e by (simp add: log_event_def engine_calls_append)
  show "image_label (thread_finished eng fs k w) = Some (QPixmap (Some r))"
    and "current_processed_image (thread_finished eng fs k w) = Some r"
    and "commands (thread_finished eng fs k w) =
      (case c of
         None \<Rightarrow> commands w
       | Some i \<Rightarrow> (commands w)
           [i := (commands w ! i)
              \<lparr>new_state := Some \<lparr>path = Some r, effect = Some (effect_type (commands w ! i))\<rparr>\<rparr>])"
    and "current_image (thread_finished eng fs k w) = current_image w"
    and "undo_stack (thread_finished eng fs k w) = undo_stack w"
    and "undo_index (thread_finished eng fs k w) = undo_index w"
    and "running (thread_finished eng fs k w) = take k (running w) @ drop (Suc k) (running w)"
    and "batch_processor (thread_finished eng fs k w) = batch_processor w"
    and "engine_calls (trace (thread_finished eng fs k w)) =
      engine_calls (trace w) @ [(input_path t, thread_effect t, output_path t)]"
    unfolding tf using e2
    by (simp_all add: processing_complete_valid [OF ok] log_event_def split: option.splits)
qed




lemma apply_effect_opened:
  "apply_effect (Some p, eff, eng, fs) w =
     apply_effect (None, eff, eng, fs)
       (w\<lparr>current_image := Some p, image_label := Some (QPixmap (Some p)),
           effect_buttons_enabled := True\<rparr>)"
  by (simp add: apply_effect_def load_specific_image_Some and_then_simps)

lemma apply_effect_fields:
  assumes img: "current_image w = Some img" "img \<noteq> []"
    and eng: "eng img eff (get_temp_path (batch_processor w) img) = (ps, Returned r)"
    and ok: "path_exists fs r" "\<not> pixmap_is_null fs r"
  shows "fst (apply_effect (None, eff, eng, fs) w) = None"
    and "image_label (snd (apply_effect (None, eff, eng, fs) w)) = Some (QPixmap (Some r))"
    and "current_processed_image (snd (apply_effect (None, eff, eng, fs) w)) = Some r"
    and "commands (snd (apply_effect (None, eff, eng, fs) w)) =
      commands w @ [\<lparr>effect_type = eff, old_state = \<lparr>path = Some img, effect = None\<rparr>,
                     new_state = Some \<lparr>path = Some r, effect = Some eff\<rparr>\<rparr>]"
    and "undo_stack (snd (apply_effect (None, eff, eng, fs) w)) =
      take (undo_index w) (undo_stack w) @ [length (commands w)]"
    and "undo_index (snd (apply_effect (None, eff, eng, fs) w)) = undo_index w + 1"
    and "current_image (snd (apply_effect (None, eff, eng, fs) w)) = Some img"
    and "running (snd (apply_effect (None, eff, eng, fs) w)) = running w"
    and "batch_processor (snd (apply_effect (None, eff, eng, fs) w)) =
      add_effect eff (batch_processor w)"
    and "engine_calls (trace (snd (apply_effect (None, eff, eng, fs) w))) =
      engine_calls (trace w) @ [(img, eff, get_temp_path (batch_processor w) img)]"
proof -
  let ?t = "\<lparr>input_path = img, thread_effect = eff,
             output_path = get_temp_path (batch_processor w) img\<rparr>"
  let ?p = "snd (process_image eff w)"
  have run1: "running ?p = running w @ [(?t, Some (length (commands w)))]"
    using img by (simp add: process_image_running)
  then have k: "length (running w) < length (running ?p)"
    and rk: "running ?p ! length (running w) = (?t, Some (length (commands w)))"
    by simp_all
  have eng': "eng (input_path ?t) (thread_effect ?t) (output_path ?t) = (ps, Returned r)"
    using eng by simp
  note tf = thread_finished_valid [where eng = eng and t = ?t, OF k rk eng' ok]
  have ae: "apply_effect (None, eff, eng, fs) w =
      (None, thread_finished eng fs (length (running w)) ?p)"
    by (simp add: apply_effect_def and_then_simps process_image_eq)
  show "fst (apply_effect (None, eff, eng, fs) w) = None"
    and "image_label (snd (apply_effect (None, eff, eng, fs) w)) = Some (QPixmap (Some r))"
    and "current_processed_image (snd (apply_effect (None, eff, eng, fs) w)) = Some r"
    and "commands (snd (apply_effect (None, eff, eng, fs) w)) =
      commands w @ [\<lparr>effect_type = eff, old_state = \<lparr>path = Some img, effect = None\<rparr>,
                     new_state = Some \<lparr>path = Some r, effect = Some eff\<rparr>\<rparr>]"
    and "undo_stack (snd (apply_effect (None, eff, eng, fs) w)) =
      take (undo_index w) (undo_stack w) @ [length (commands w)]"
    and "undo_index (snd (apply_effect (None, eff, eng, fs) w)) = undo_index w + 1"
    and "current_image (snd (apply_effect (None, eff, eng, fs) w)) = Some img"
    and "running (snd (apply_effect (None, eff, eng, fs) w)) = running w"
    and "batch_processor (snd (apply_effect (None, eff, eng, fs) w)) =
      add_effect eff (batch_processor w)"
    and "engine_calls (trace (snd (apply_effect (None, eff, eng, fs) w))) =
      engine_calls (trace w) @ [(img, eff, get_temp_path (batch_processor w) img)]"
    unfolding ae using tf img
    by (simp_all add: process_image_fields run1)
qed

lemma stack_undo_eq:
  assumes "0 < undo_index w" and "undo_index w \<le> length (undo_stack w)"
    and "path (old_state (stack_command w (undo_index w - 1))) = Some p"
  shows "stack_undo w =
     (None, w\<lparr>current_image := Some p, image_label := Some (QPixmap (Some p)),
               effect_buttons_enabled := True, undo_index := undo_index w - 1\<rparr>)"
  using assms
  by (simp add: stack_undo_def cmd_undo_def stack_command_def Let_def
      load_specific_image_Some and_then_simps)

lemma stack_redo_cached_eq:
  assumes "undo_index w < length (undo_stack w)"
    and "new_state (stack_command w (undo_index w)) = Some s" and "path s = Some p"
  shows "stack_redo w =
     (None, w\<lparr>current_image := Some p, image_label := Some (QPixmap (Some p)),
               effect_buttons_enabled := True, undo_index := undo_index w + 1\<rparr>)"
  using assms
  by (simp add: stack_redo_def cmd_redo_def stack_command_def
      load_specific_image_Some and_then_simps)

lemma stack_redo_cached_frame:
  assumes "\<forall>k<length (undo_stack w). new_state (stack_command w k) \<noteq> None"
  shows "running (snd (stack_redo w)) = running w \<and> trace (snd (stack_redo w)) = trace w \<and>
         commands (snd (stack_redo w)) = commands w \<and>
         undo_stack (snd (stack_redo w)) = undo_stack w"
proof (cases "undo_index w < length (undo_stack w)")
  case True
  with assms obtain s where s: "new_state (stack_command w (undo_index w)) = Some s"
    by auto
  show ?thesis
  proof (cases "path s")
    case None
    with True s show ?thesis
      by (simp add: stack_redo_def cmd_redo_def stack_command_def
          load_specific_image_None and_then_simps)
  next
    case (Some p)
    from stack_redo_cached_eq [OF True s Some] show ?thesis by simp
  qed
next
  case False
  then show ?thesis by (simp add: stack_redo_def)
qed

lemma repeatedly_stack_redo_cached_frame:
  assumes "\<forall>k<length (undo_stack w). new_state (stack_command w k) \<noteq> None"
  shows "running (snd (repeatedly n stack_redo w)) = running w \<and>
         trace (snd (repeatedly n stack_redo w)) = trace w \<and>
         commands (snd (repeatedly n stack_redo w)) = commands w \<and>
         undo_stack (snd (repeatedly n stack_redo w)) = undo_stack w"
proof (induction n)
  case 0
  show ?case by simp
next
  case (Suc n)
  obtain e u where r: "repeatedly n stack_redo w = (e, u)"
    using prod.exhaust by blast
  with Suc have u: "running u = running w" "trace u = trace w" "commands u = commands w"
    "undo_stack u = undo_stack w"
    by simp_all
  show ?case
  proof (cases e)
    case None
    from u assms have "\<forall>k<length (undo_stack u). new_state (stack_command u k) \<noteq> None"
      by (simp add: stack_command_def)
    from stack_redo_cached_frame [OF this] u r None show ?thesis
      by (simp add: and_then_simps)
  next
    case (Some err)
    with r u show ?thesis by (simp add: and_then_simps)
  qed
qed

lemma a_png_loaded_fields:
  "current_image a_png_loaded = Some ''a.png''"
  "image_label a_png_loaded = Some (QPixmap (Some ''a.png''))"
  "undo_index a_png_loaded = 0"
  "undo_stack a_png_loaded = []"
  "temp_dir (batch_processor a_png_loaded) = ''/tmp/tmpk3x''"
  "commands a_png_loaded = []"
  "running a_png_loaded = []"
  "trace a_png_loaded = []"
  by (simp_all add: a_png_loaded_def load_specific_image_Some init_main_window_def
      init_batch_processor_def)

lemma grayscale_applied_fields:
  "image_label grayscale_applied = Some (QPixmap (Some ''/tmp/tmpk3x/temp_a.png''))"
  "commands grayscale_applied =
     [\<lparr>effect_type = ''grayscale'', old_state = \<lparr>path = Some ''a.png'', effect = None\<rparr>,
       new_state = Some \<lparr>path = Some ''/tmp/tmpk3x/temp_a.png'', effect = Some ''grayscale''\<rparr>\<rparr>]"
  "undo_stack grayscale_applied = [0]"
  "undo_index grayscale_applied = 1"
  "current_image grayscale_applied = Some ''a.png''"
  "running grayscale_applied = []"
  "engine_calls (trace grayscale_applied) =
     [(''a.png'', ''grayscale'', ''/tmp/tmpk3x/temp_a.png'')]"
proof -
  have img: "current_image a_png_loaded = Some ''a.png''" "''a.png'' \<noteq> []"
    by (simp_all add: a_png_loaded_fields)
  have eng: "engine_ok ''a.png'' ''grayscale''
      (get_temp_path (batch_processor a_png_loaded) ''a.png'') =
      ([0, 50, 100], Returned ''/tmp/tmpk3x/temp_a.png'')"
    by (simp add: engine_ok_def temp_path_examples a_png_loaded_fields)
  have ok: "path_exists files_valid ''/tmp/tmpk3x/temp_a.png''"
    "\<not> pixmap_is_null files_valid ''/tmp/tmpk3x/temp_a.png''"
    by (simp_all add: files_valid_def)
  note f = apply_effect_fields [where eng = engine_ok and eff = "''grayscale''", OF img eng ok]
  show "image_label grayscale_applied = Some (QPixmap (Some ''/tmp/tmpk3x/temp_a.png''))"
    "commands grayscale_applied =
     [\<lparr>effect_type = ''grayscale'', old_state = \<lparr>path = Some ''a.png'', effect = None\<rparr>,
       new_state = Some \<lparr>path = Some ''/tmp/tmpk3x/temp_a.png'', effect = Some ''grayscale''\<rparr>\<rparr>]"
    "undo_stack grayscale_applied = [0]"
    "undo_index grayscale_applied = 1"
    "current_image grayscale_applied = Some ''a.png''"
    "running grayscale_applied = []"
    "engine_calls (trace grayscale_applied) =
     [(''a.png'', ''grayscale'', ''/tmp/tmpk3x/temp_a.png'')]"
    unfolding grayscale_applied_def using f
    by (simp_all add: a_png_loaded_fields temp_path_examples)
qed

lemma repeatedly_stack_undo:
  assumes "m \<le> undo_index w" and "undo_index w \<le> length (undo_stack w)"
    and "\<forall>k<undo_index w. path (old_state (stack_command w k)) \<noteq> None \<or> k < undo_index w - m"
  shows "fst (repeatedly m stack_undo w) = None \<and>
         commands (snd (repeatedly m stack_undo w)) = commands w \<and>
         undo_stack (snd (repeatedly m stack_undo w)) = undo_stack w \<and>
         undo_index (snd (repeatedly m stack_undo w)) = undo_index w - m \<and>
         running (snd (repeatedly m stack_undo w)) = running w \<and>
         trace (snd (repeatedly m stack_undo w)) = trace w"
  using assms(1,3)
proof (induction m)
  case 0
  show ?case by simp
next
  case (Suc m)
  obtain e u where r: "repeatedly m stack_undo w = (e, u)"
    using prod.exhaust by blast
  from Suc.prems have "m \<le> undo_index w"
    and "\<forall>k<undo_index w. path (old_state (stack_command w k)) \<noteq> None \<or> k < undo_index w - m"
    by auto
  from Suc.IH [OF this] r have e: "e = None"
    and ih: "commands u = commands w" "undo_stack u = undo_stack w"
    "undo_index u = undo_index w - m" "running u = running w" "trace u = trace w"
    by simp_all
  have pos: "0 < undo_index u" "undo_index u \<le> length (undo_stack u)"
    using Suc.prems(1) assms(2) ih by simp_all
  have "undo_index u - 1 < undo_index w" "\<not> undo_index u - 1 < undo_index w - Suc m"
    using Suc.prems(1) ih by simp_all
  with Suc.prems(2) have "path (old_state (stack_command w (undo_index u - 1))) \<noteq> None"
    by blast
  then obtain p where "path (old_state (stack_command u (undo_index u - 1))) = Some p"
    by (auto simp: stack_command_def ih)
  from stack_undo_eq [OF pos this] r e ih show ?case
    by (simp add: and_then_simps)
qed

lemma repeatedly_stack_redo:
  assumes "undo_index u + m \<le> length (undo_stack u)"
    and "\<forall>k<m. \<exists>s p. new_state (stack_command u (undo_index u + k)) = Some s \<and> path s = Some p"
  shows "fst (repeatedly m stack_redo u) = None \<and>
         commands (snd (repeatedly m stack_redo u)) = commands u \<and>
         undo_stack (snd (repeatedly m stack_redo u)) = undo_stack u \<and>
         undo_index (snd (repeatedly m stack_redo u)) = undo_index u + m \<and>
         (\<forall>s. 0 < m \<longrightarrow> new_state (stack_command u (undo_index u + m - 1)) = Some s \<longrightarrow>
            image_label (snd (repeatedly m stack_redo u)) = Some (QPixmap (path s)))"
  using assms
proof (induction m)
  case 0
  show ?case by simp
next
  case (Suc m)
  obtain e v where r: "repeatedly m stack_redo u = (e, v)"
    using prod.exhaust by blast
  from Suc r have e: "e = None"
    and ih: "commands v = commands u" "undo_stack v = undo_stack u"
    "undo_index v = undo_index u + m"
    by simp_all
  have lt: "undo_index v < length (undo_stack v)"
    using Suc.prems(1) ih by simp
  from Suc.prems(2) obtain s p where
    s: "new_state (stack_command u (undo_index u + m)) = Some s" and p: "path s = Some p"
    by auto
  have "new_state (stack_command v (undo_index v)) = Some s"
    using s by (simp add: stack_command_def ih)
  from stack_redo_cached_eq [OF lt this p] r e ih s p show ?case
    by (simp add: and_then_simps)
qed


lemma apply_effects_snoc:
  "apply_effects (steps @ [step]) w = and_then (apply_effects steps w) (apply_effect step)"
  by (simp add: apply_effects_def)

lemma apply_effects_invariant:
  assumes wf: "undo_index w \<le> length (undo_stack w)"
    and img: "current_image w = Some img" "img \<noteq> []"
    and ok: "\<forall>(opened, eff, eng, fs)\<in>set steps. opened \<noteq> Some [] \<and> (\<forall>i out.
        case snd (eng i eff out) of
          Returned r \<Rightarrow> path_exists fs r \<and> \<not> pixmap_is_null fs r
        | Raised e \<Rightarrow> False)"
  shows "fst (apply_effects steps w) = None \<and>
     (\<exists>im. current_image (snd (apply_effects steps w)) = Some im \<and> im \<noteq> []) \<and>
     undo_index (snd (apply_effects steps w))
       \<le> length (undo_stack (snd (apply_effects steps w))) \<and>
     undo_index (snd (apply_effects steps w)) = undo_index w + length steps \<and>
     (\<forall>k<length steps.
        path (old_state (stack_command (snd (apply_effects steps w)) (undo_index w + k))) \<noteq> None \<and>
        (\<exists>s p. new_state (stack_command (snd (apply_effects steps w)) (undo_index w + k)) = Some s \<and>
               path s = Some p) \<and>
        undo_stack (snd (apply_effects steps w)) ! (undo_index w + k)
          < length (commands (snd (apply_effects steps w)))) \<and>
     (steps \<noteq> [] \<longrightarrow>
        (\<exists>s. new_state (stack_command (snd (apply_effects steps w))
                 (undo_index w + length steps - 1)) = Some s \<and>
             image_label (snd (apply_effects steps w)) = Some (QPixmap (path s))))"
  using ok
proof (induction steps rule: rev_induct)
  case Nil
  show ?case using wf img by (simp add: apply_effects_def)
next
  case (snoc step steps)
  let ?w1 = "snd (apply_effects steps w)"
  obtain opened eff eng fs where step: "step = (opened, eff, eng, fs)"
    by (cases step) auto
  from snoc.prems have ok1: "\<forall>(opened, eff, eng, fs)\<in>set steps. opened \<noteq> Some [] \<and> (\<forall>i out.
        case snd (eng i eff out) of
          Returned r \<Rightarrow> path_exists fs r \<and> \<not> pixmap_is_null fs r
        | Raised e \<Rightarrow> False)"
    by simp
  note ih = snoc.IH [OF ok1]
  from ih have noerr: "apply_effects steps w = (None, ?w1)"
    by (simp add: prod_eq_iff)
  from ih obtain im where ci: "current_image ?w1 = Some im" "im \<noteq> []"
    by blast
  from ih have le: "undo_index ?w1 \<le> length (undo_stack ?w1)"
    and ui: "undo_index ?w1 = undo_index w + length steps"
    by simp_all
  from ih have old: "\<And>k. k < length steps \<Longrightarrow>
        path (old_state (stack_command ?w1 (undo_index w + k))) \<noteq> None \<and>
        (\<exists>s p. new_state (stack_command ?w1 (undo_index w + k)) = Some s \<and> path s = Some p) \<and>
        undo_stack ?w1 ! (undo_index w + k) < length (commands ?w1)"
    by simp
  let ?v = "case opened of
      None \<Rightarrow> ?w1
    | Some p \<Rightarrow> ?w1\<lparr>current_image := Some p, image_label := Some (QPixmap (Some p)),
                    effect_buttons_enabled := True\<rparr>"
  from snoc.prems step have nonempty: "opened \<noteq> Some []" by simp
  have v: "commands ?v = commands ?w1" "undo_stack ?v = undo_stack ?w1"
    "undo_index ?v = undo_index ?w1"
    by (simp_all split: option.splits)
  obtain im' where ci': "current_image ?v = Some im'" "im' \<noteq> []"
    using ci nonempty by (cases opened) auto
  have ae: "apply_effect step ?w1 = apply_effect (None, eff, eng, fs) ?v"
    unfolding step by (cases opened) (simp_all add: apply_effect_opened)
  let ?w2 = "snd (apply_effect (None, eff, eng, fs) ?v)"
  let ?out = "get_temp_path (batch_processor ?v) im'"
  from snoc.prems step have
    "case snd (eng im' eff ?out) of
       Returned r \<Rightarrow> path_exists fs r \<and> \<not> pixmap_is_null fs r | Raised e \<Rightarrow> False"
    by simp
  then obtain ps r where eng: "eng im' eff ?out = (ps, Returned r)"
    and valid: "path_exists fs r" "\<not> pixmap_is_null fs r"
    by (cases "eng im' eff ?out"; cases "snd (eng im' eff ?out)") auto
  note f = apply_effect_fields [where eng = eng and eff = eff, OF ci' eng valid]
  have "apply_effects (steps @ [step]) w = apply_effect step ?w1"
    by (subst apply_effects_snoc, subst noerr) (simp add: and_then_simps)
  then have res: "apply_effects (steps @ [step]) w = (None, ?w2)"
    using f(1) ae by (simp add: prod_eq_iff)
  have us: "undo_stack ?w2 = take (undo_index ?w1) (undo_stack ?w1) @ [length (commands ?w1)]"
    and cs: "commands ?w2 = commands ?w1 @
        [\<lparr>effect_type = eff, old_state = \<lparr>path = Some im', effect = None\<rparr>,
          new_state = Some \<lparr>path = Some r, effect = Some eff\<rparr>\<rparr>]"
    and il: "image_label ?w2 = Some (QPixmap (Some r))"
    and ui2: "undo_index ?w2 = undo_index ?w1 + 1"
    and ci2: "current_image ?w2 = Some im'"
    using f v by simp_all
  have lt: "length (take (undo_index ?w1) (undo_stack ?w1)) = undo_index ?w1"
    using le by simp
  have new: "stack_command ?w2 (undo_index w + length steps) =
      \<lparr>effect_type = eff, old_state = \<lparr>path = Some im', effect = None\<rparr>,
       new_state = Some \<lparr>path = Some r, effect = Some eff\<rparr>\<rparr>"
    unfolding stack_command_def us cs using lt ui by (simp add: nth_append)
  have newref: "undo_stack ?w2 ! (undo_index w + length steps) < length (commands ?w2)"
    unfolding us cs using lt ui by (simp add: nth_append)
  have keep: "path (old_state (stack_command ?w2 (undo_index w + k))) \<noteq> None \<and>
      (\<exists>s p. new_state (stack_command ?w2 (undo_index w + k)) = Some s \<and> path s = Some p) \<and>
      undo_stack ?w2 ! (undo_index w + k) < length (commands ?w2)"
    if "k < length steps" for k
  proof -
    from that have p: "undo_index w + k < undo_index ?w1" using ui by simp
    then have ref: "undo_stack ?w2 ! (undo_index w + k) = undo_stack ?w1 ! (undo_index w + k)"
      unfolding us using lt by (simp add: nth_append)
    from old [OF that] have b: "undo_stack ?w1 ! (undo_index w + k) < length (commands ?w1)"
      and n: "path (old_state (stack_command ?w1 (undo_index w + k))) \<noteq> None"
        "\<exists>s p. new_state (stack_command ?w1 (undo_index w + k)) = Some s \<and> path s = Some p"
      by simp_all
    have "stack_command ?w2 (undo_index w + k) = stack_command ?w1 (undo_index w + k)"
      unfolding stack_command_def ref cs using b by (simp add: nth_append)
    with n b ref cs show ?thesis by simp
  qed
  have all: "path (old_state (stack_command ?w2 (undo_index w + k))) \<noteq> None \<and>
      (\<exists>s p. new_state (stack_command ?w2 (undo_index w + k)) = Some s \<and> path s = Some p) \<and>
      undo_stack ?w2 ! (undo_index w + k) < length (commands ?w2)"
    if "k < length (steps @ [step])" for k
  proof (cases "k < length steps")
    case True
    then show ?thesis by (rule keep)
  next
    case False
    with that have "k = length steps" by simp
    with new newref show ?thesis by simp
  qed
  have len: "undo_index ?w2 \<le> length (undo_stack ?w2)"
    unfolding us ui2 using lt by simp
  show ?case
    unfolding res using all ci2 ci'(2) len ui ui2 new il by simp
qed


lemma two_edits_fields:
  defines "w2 \<equiv> snd (apply_effects [(None, ''blur'', engine_ok, files_valid),
                                     (Some ''b.png'', ''sepia'', engine_ok, files_valid)]
                        a_png_loaded)"
  shows "image_label w2 = Some (QPixmap (Some ''/tmp/tmpk3x/temp_b.png''))"
    and "image_label (snd (repeatedly 2 stack_undo w2)) = Some (QPixmap (Some ''a.png''))"
proof -
  let ?w1 = "snd (apply_effect (None, ''blur'', engine_ok, files_valid) a_png_loaded)"
  have ok: "path_exists files_valid p" "\<not> pixmap_is_null files_valid p" for p
    by (simp_all add: files_valid_def)
  have img: "current_image a_png_loaded = Some ''a.png''" "''a.png'' \<noteq> []"
    by (simp_all add: a_png_loaded_fields)
  have e1: "engine_ok ''a.png'' ''blur'' (get_temp_path (batch_processor a_png_loaded) ''a.png'') =
      ([0, 50, 100], Returned ''/tmp/tmpk3x/temp_a.png'')"
    by (simp add: engine_ok_def temp_path_examples a_png_loaded_fields)
  note f1 = apply_effect_fields [where eng = engine_ok and eff = "''blur''", OF img e1 ok]
  have td: "temp_dir (batch_processor ?w1) = ''/tmp/tmpk3x''"
    and i1: "undo_index ?w1 = 1" and s1: "undo_stack ?w1 = [0]"
    and n1: "length (commands ?w1) = 1"
    using f1 by (simp_all add: a_png_loaded_fields add_effect_def)
  let ?v = "?w1\<lparr>current_image := Some ''b.png'', image_label := Some (QPixmap (Some ''b.png'')),
                effect_buttons_enabled := True\<rparr>"
  have cv: "current_image ?v = Some ''b.png''" "''b.png'' \<noteq> []"
    by simp_all
  have e2: "engine_ok ''b.png'' ''sepia'' (get_temp_path (batch_processor ?v) ''b.png'') =
      ([0, 50, 100], Returned ''/tmp/tmpk3x/temp_b.png'')"
    by (simp add: engine_ok_def temp_path_examples td)
  note f2 = apply_effect_fields [where eng = engine_ok and eff = "''sepia''", OF cv e2 ok]
  have w2: "w2 = snd (apply_effect (None, ''sepia'', engine_ok, files_valid) ?v)"
    using f1(1)
    by (simp add: w2_def apply_effects_def and_then_simps apply_effect_opened prod_eq_iff
        and_then_def split: prod.splits option.splits)
  show "image_label w2 = Some (QPixmap (Some ''/tmp/tmpk3x/temp_b.png''))"
    unfolding w2 using f2 by simp
  have i2: "undo_index w2 = 2" and s2: "undo_stack w2 = [0, 1]"
    and top: "path (old_state (commands w2 ! 1)) = Some ''b.png''"
    and bot: "path (old_state (commands w2 ! 0)) = Some ''a.png''"
    unfolding w2 using f2 f1 i1 s1 n1 by (simp_all add: nth_append a_png_loaded_fields)
  have u: "stack_undo w2 =
      (None, w2\<lparr>current_image := Some ''b.png'', image_label := Some (QPixmap (Some ''b.png'')),
                 effect_buttons_enabled := True, undo_index := 1\<rparr>)"
    using stack_undo_eq [of w2 "''b.png''"] top by (simp add: i2 s2 stack_command_def)
  let ?u = "w2\<lparr>current_image := Some ''b.png'', image_label := Some (QPixmap (Some ''b.png'')),
                effect_buttons_enabled := True, undo_index := 1\<rparr>"
  have "stack_undo ?u =
      (None, ?u\<lparr>current_image := Some ''a.png'', image_label := Some (QPixmap (Some ''a.png'')),
                 effect_buttons_enabled := True, undo_index := 0\<rparr>)"
    using stack_undo_eq [of ?u "''a.png''"] bot by (simp add: s2 stack_command_def)
  with u show "image_label (snd (repeatedly 2 stack_undo w2)) = Some (QPixmap (Some ''a.png''))"
    by (simp add: numeral_2_eq_2 and_then_simps)
qed


lemma edits_finished_out_of_order_fields:
  "commands edits_finished_out_of_order =
     [\<lparr>effect_type = ''blur'', old_state = \<lparr>path = Some ''a.png'', effect = None\<rparr>,
       new_state = Some \<lparr>path = Some ''/tmp/tmpk3x/temp_a.png'', effect = Some ''blur''\<rparr>\<rparr>,
      \<lparr>effect_type = ''sepia'', old_state = \<lparr>path = Some ''b.png'', effect = None\<rparr>,
       new_state = Some \<lparr>path = Some ''/tmp/tmpk3x/temp_b.png'', effect = Some ''sepia''\<rparr>\<rparr>]"
  "undo_stack edits_finished_out_of_order = [0, 1]"
  "undo_index edits_finished_out_of_order = 2"
  "image_label edits_finished_out_of_order = Some (QPixmap (Some ''/tmp/tmpk3x/temp_a.png''))"
  "running edits_finished_out_of_order = []"
proof -
  let ?w1 = "snd (process_image ''blur'' a_png_loaded)"
  let ?w2 = "snd (load_specific_image (Some ''b.png'') ?w1)"
  let ?w3 = "snd (process_image ''sepia'' ?w2)"
  let ?w4 = "thread_finished engine_ok files_valid 1 ?w3"
  let ?ta = "\<lparr>input_path = ''a.png'', thread_effect = ''blur'',
              output_path = ''/tmp/tmpk3x/temp_a.png''\<rparr>"
  let ?tb = "\<lparr>input_path = ''b.png'', thread_effect = ''sepia'',
              output_path = ''/tmp/tmpk3x/temp_b.png''\<rparr>"
  have ok: "path_exists files_valid p" "\<not> pixmap_is_null files_valid p" for p
    by (simp_all add: files_valid_def)
  have w1: "commands ?w1 = [\<lparr>effect_type = ''blur'',
        old_state = \<lparr>path = Some ''a.png'', effect = None\<rparr>, new_state = None\<rparr>]"
    "undo_stack ?w1 = [0]" "undo_index ?w1 = 1" "running ?w1 = [(?ta, Some 0)]"
    "temp_dir (batch_processor ?w1) = ''/tmp/tmpk3x''"
    by (simp_all add: process_image_fields process_image_running a_png_loaded_fields
        temp_path_examples add_effect_def)
  have w2: "commands ?w2 = commands ?w1" "undo_stack ?w2 = [0]" "undo_index ?w2 = 1"
    "running ?w2 = [(?ta, Some 0)]" "current_image ?w2 = Some ''b.png''"
    "temp_dir (batch_processor ?w2) = ''/tmp/tmpk3x''"
    by (simp_all add: load_specific_image_frame w1)
  have w3: "commands ?w3 = [\<lparr>effect_type = ''blur'',
        old_state = \<lparr>path = Some ''a.png'', effect = None\<rparr>, new_state = None\<rparr>,
      \<lparr>effect_type = ''sepia'',
        old_state = \<lparr>path = Some ''b.png'', effect = None\<rparr>, new_state = None\<rparr>]"
    "undo_stack ?w3 = [0, 1]" "undo_index ?w3 = 2"
    "running ?w3 = [(?ta, Some 0), (?tb, Some 1)]"
    by (simp_all add: process_image_fields process_image_running w2 a_png_loaded_fields
        temp_path_examples)
  have k3: "1 < length (running ?w3)" and r3: "running ?w3 ! 1 = (?tb, Some 1)"
    by (simp_all add: w3)
  have eb: "engine_ok (input_path ?tb) (thread_effect ?tb) (output_path ?tb) =
      ([0, 50, 100], Returned ''/tmp/tmpk3x/temp_b.png'')"
    by (simp add: engine_ok_def)
  note f4 = thread_finished_valid [where eng = engine_ok and t = ?tb, OF k3 r3 eb ok]
  have w4: "commands ?w4 = [\<lparr>effect_type = ''blur'',
        old_state = \<lparr>path = Some ''a.png'', effect = None\<rparr>, new_state = None\<rparr>,
      \<lparr>effect_type = ''sepia'', old_state = \<lparr>path = Some ''b.png'', effect = None\<rparr>,
        new_state = Some \<lparr>path = Some ''/tmp/tmpk3x/temp_b.png'', effect = Some ''sepia''\<rparr>\<rparr>]"
    "undo_stack ?w4 = [0, 1]" "undo_index ?w4 = 2" "running ?w4 = [(?ta, Some 0)]"
    using f4 by (simp_all add: w3)
  have k4: "0 < length (running ?w4)" and r4: "running ?w4 ! 0 = (?ta, Some 0)"
    using w4(4) by simp_all
  have ea: "engine_ok (input_path ?ta) (thread_effect ?ta) (output_path ?ta) =
      ([0, 50, 100], Returned ''/tmp/tmpk3x/temp_a.png'')"
    by (simp add: engine_ok_def)
  note f5 = thread_finished_valid [where eng = engine_ok and t = ?ta, OF k4 r4 ea ok]
  have e: "edits_finished_out_of_order = thread_finished engine_ok files_valid 0 ?w4"
    by (simp add: edits_finished_out_of_order_def Let_def)
  show "commands edits_finished_out_of_order =
     [\<lparr>effect_type = ''blur'', old_state = \<lparr>path = Some ''a.png'', effect = None\<rparr>,
       new_state = Some \<lparr>path = Some ''/tmp/tmpk3x/temp_a.png'', effect = Some ''blur''\<rparr>\<rparr>,
      \<lparr>effect_type = ''sepia'', old_state = \<lparr>path = Some ''b.png'', effect = None\<rparr>,
       new_state = Some \<lparr>path = Some ''/tmp/tmpk3x/temp_b.png'', effect = Some ''sepia''\<rparr>\<rparr>]"
    "undo_stack edits_finished_out_of_order = [0, 1]"
    "undo_index edits_finished_out_of_order = 2"
    "image_label edits_finished_out_of_order = Some (QPixmap (Some ''/tmp/tmpk3x/temp_a.png''))"
    "running edits_finished_out_of_order = []"
    unfolding e using f5 w4 by simp_all
qed


section \<open>The temporary path of a file\<close>

text \<open>
  C8: for every original path \<open>p\<close> and every batch processor whose temporary directory is
  \<open>d\<close> (a path name as \<^verbatim>\<open>mkdtemp\<close> returns it), \<open>get_temp_path\<close> returns \<open>d\<close>, a separator,
  and \<open>temp_\<close> followed by the final component of \<open>p\<close>. The result is a function of \<open>d\<close>
  and \<open>p\<close> alone: whatever the queue and the processed mapping of the instance hold, the
  same path is derived again.
\<close>

theorem get_temp_path_is_dir_temp_basename:
  assumes "temp_dir bp = d" and "normal_pathname d"
  shows "get_temp_path bp p = d @ ''/'' @ ''temp_'' @ path_name (Path p)"
proof -
  from assms have tl: "p_tail (Path (temp_dir bp)) \<noteq> []"
    and str: "path_str (Path (temp_dir bp)) = d"
    by (simp_all add: normal_pathname_def)
  have "get_temp_path bp p =
      p_root (Path (temp_dir bp)) @ join_sep (p_tail (Path (temp_dir bp)))
        @ CHR ''/'' # ''temp_'' @ path_name (Path p)"
    using tl by (simp add: get_temp_path_parts path_str_def join_sep_snoc)
  also have "\<dots> = path_str (Path (temp_dir bp)) @ CHR ''/'' # ''temp_'' @ path_name (Path p)"
    using tl by (simp add: path_str_def)
  finally show ?thesis using str by simp
qed

theorem get_temp_path_is_dir_temp_basename_witness:
  "normal_pathname ''/tmp/tmpk3x'' \<and>
   get_temp_path \<lparr>effects_queue = [''blur''], temp_dir = ''/tmp/tmpk3x'',
                  processed_images = [(''a.png'', ''/tmp/tmpk3x/temp_a.png'')]\<rparr>
     ''/home/u/pics/a.png'' = ''/tmp/tmpk3x/temp_a.png''"
proof -
  have n: "normal_pathname ''/tmp/tmpk3x''"
    by (simp add: normal_pathname_def Path_def path_str_def splitroot_def)
  have b: "path_name (Path ''/home/u/pics/a.png'') = ''a.png''"
    by (simp add: path_name_def Path_def)
  show ?thesis
    using n b get_temp_path_is_dir_temp_basename
      [of "\<lparr>effects_queue = [''blur''], temp_dir = ''/tmp/tmpk3x'',
            processed_images = [(''a.png'', ''/tmp/tmpk3x/temp_a.png'')]\<rparr>"
          "''/tmp/tmpk3x''" "''/home/u/pics/a.png''"]
    by simp
qed

section \<open>Batch processing: order of the engine calls and the processed mapping\<close>

text \<open>
  C3: for a non-empty list of \<open>F\<close> batch files and a non-empty queue of \<open>E\<close> effects,
  \<open>process_batch\<close> adds exactly \<open>F * E\<close> engine calls to those made before, in file-major,
  effect-minor order: call \<open>i * E + j\<close> applies effect \<open>j\<close> to file \<open>i\<close>, reads the file
  itself when \<open>j = 0\<close> and the file's temporary path otherwise, and writes to
  \<open>get_temp_path\<close> of the file. After the run the processed mapping is the old one
  updated, file by file, with the file's temporary path, so every batch file is mapped
  to its temporary path. This holds whatever the engine does at each step. The witness
  is the scenario of files \<open>a.png\<close>, \<open>b.png\<close> with effects \<open>blur\<close>, \<open>sepia\<close>.
\<close>

theorem process_batch_file_major_effect_minor:
  assumes "batch_files w = files" and "effects_queue (batch_processor w) = effs"
    and "files \<noteq> []" and "effs \<noteq> []"
    and "calls = drop (length (engine_calls (trace w)))
                   (engine_calls (trace (process_batch engs w)))"
  shows "take (length (engine_calls (trace w))) (engine_calls (trace (process_batch engs w))) =
           engine_calls (trace w) \<and>
         length calls = length files * length effs \<and>
         (\<forall>i<length files. \<forall>j<length effs.
            calls ! (i * length effs + j) =
              (if j = 0 then files ! i else get_temp_path (batch_processor w) (files ! i),
               effs ! j, get_temp_path (batch_processor w) (files ! i))) \<and>
         processed_images (batch_processor (process_batch engs w)) =
           fold (\<lambda>f. AList.update f (get_temp_path (batch_processor w) f)) files
             (processed_images (batch_processor w)) \<and>
         (\<forall>f\<in>set files. map_of (processed_images (batch_processor (process_batch engs w))) f =
            Some (get_temp_path (batch_processor w) f))"
proof -
  have pi: "processed_images (batch_processor (process_batch engs w)) =
           fold (\<lambda>f. AList.update f (get_temp_path (batch_processor w) f)) files
             (processed_images (batch_processor w))"
    using process_batch_result [of w engs] assms(1-4) by simp
  show ?thesis
    using process_batch_calls [OF assms] pi by (simp add: map_of_fold_update)
qed

theorem process_batch_file_major_effect_minor_witness:
  "[''a.png'', ''b.png''] \<noteq> [] \<and> [''blur'', ''sepia''] \<noteq> [] \<and>
   processed_images (batch_processor
       (process_batch engines_ok (batch_window [''a.png'', ''b.png''] [''blur'', ''sepia'']))) =
     [(''a.png'', ''/tmp/tmpk3x/temp_a.png''), (''b.png'', ''/tmp/tmpk3x/temp_b.png'')] \<and>
   length (engine_calls (trace
       (process_batch engines_ok (batch_window [''a.png'', ''b.png''] [''blur'', ''sepia''])))) = 4 \<and>
   engine_calls (trace
       (process_batch engines_ok (batch_window [''a.png'', ''b.png''] [''blur'', ''sepia'']))) ! 3 =
     (''/tmp/tmpk3x/temp_b.png'', ''sepia'', ''/tmp/tmpk3x/temp_b.png'')"
proof -
  let ?w = "batch_window [''a.png'', ''b.png''] [''blur'', ''sepia'']"
  note t = process_batch_file_major_effect_minor
    [of ?w "[''a.png'', ''b.png'']" "[''blur'', ''sepia'']"
        "engine_calls (trace (process_batch engines_ok ?w))" engines_ok]
  from t have "\<forall>i<length [''a.png'', ''b.png'']. \<forall>j<length [''blur'', ''sepia''].
      engine_calls (trace (process_batch engines_ok ?w)) ! (i * length [''blur'', ''sepia''] + j) =
        (if j = 0 then [''a.png'', ''b.png''] ! i
         else get_temp_path (batch_processor ?w) ([''a.png'', ''b.png''] ! i),
         [''blur'', ''sepia''] ! j,
         get_temp_path (batch_processor ?w) ([''a.png'', ''b.png''] ! i))"
    by (simp add: batch_window_simps)
  from this [rule_format, of 1 1]
  have last_call: "engine_calls (trace (process_batch engines_ok ?w)) ! 3 =
      (''/tmp/tmpk3x/temp_b.png'', ''sepia'', ''/tmp/tmpk3x/temp_b.png'')"
    by (simp add: batch_window_simps temp_path_examples numeral_3_eq_3)
  from t last_call show ?thesis
    by (simp add: batch_window_simps temp_path_examples)
qed

section \<open>Batch processing: an engine failure does not stop the batch\<close>

text \<open>
  C1 asks that no engine call follows a failed one and that the processed mapping holds
  no entry for the failing file or a later one. \<^verbatim>\<open>ProcessingThread.run\<close> catches the
  engine's exception and logs it, so \<^verbatim>\<open>thread.run()\<close> returns normally and the
  \<^verbatim>\<open>except\<close> clause of \<^verbatim>\<open>process_batch\<close> is never reached. With files \<open>a.png\<close>, \<open>b.png\<close>,
  effects \<open>blur\<close>, \<open>sepia\<close> and an engine that raises at the first call: the exception
  is logged by \<open>run\<close>, all four engine calls are made, and both files are entered in the
  processed mapping.
\<close>

theorem process_batch_runs_on_after_engine_failure:
  "snd (run (engines_first_fails 0)
          \<lparr>input_path = ''a.png'', thread_effect = ''blur'',
           output_path = ''/tmp/tmpk3x/temp_a.png''\<rparr>) =
     Some ''Processing error: unsupported effect'' \<and>
   engine_calls (trace (process_batch engines_first_fails
       (batch_window [''a.png'', ''b.png''] [''blur'', ''sepia'']))) =
     [(''a.png'', ''blur'', ''/tmp/tmpk3x/temp_a.png''),
      (''/tmp/tmpk3x/temp_a.png'', ''sepia'', ''/tmp/tmpk3x/temp_a.png''),
      (''b.png'', ''blur'', ''/tmp/tmpk3x/temp_b.png''),
      (''/tmp/tmpk3x/temp_b.png'', ''sepia'', ''/tmp/tmpk3x/temp_b.png'')] \<and>
   processed_images (batch_processor (process_batch engines_first_fails
       (batch_window [''a.png'', ''b.png''] [''blur'', ''sepia'']))) =
     [(''a.png'', ''/tmp/tmpk3x/temp_a.png''), (''b.png'', ''/tmp/tmpk3x/temp_b.png'')]"
proof -
  let ?w = "batch_window [''a.png'', ''b.png''] [''blur'', ''sepia'']"
  have r: "snd (run (engines_first_fails 0)
          \<lparr>input_path = ''a.png'', thread_effect = ''blur'',
           output_path = ''/tmp/tmpk3x/temp_a.png''\<rparr>) =
     Some ''Processing error: unsupported effect''"
    by (simp add: run_def engines_first_fails_def engine_fails_def)
  have ne: "batch_files ?w \<noteq> []" "effects_queue (batch_processor ?w) \<noteq> []"
    by (simp_all add: batch_window_simps)
  show ?thesis
    using r process_batch_result [OF ne, of engines_first_fails]
    by (simp add: batch_window_simps temp_path_examples file_calls_Cons file_calls_Nil)
qed

section \<open>Batch processing: the progress values of 2 files and 3 effects\<close>

text \<open>
  C4 states the values 17, 33, 50, 67, 83, 100 (rounded). The code computes
  \<^verbatim>\<open>int((completed_operations / total_operations) * 100)\<close>, and \<^verbatim>\<open>int\<close> truncates: after
  the initial \<^verbatim>\<open>setValue(0)\<close> the values set after the six steps are
  16, 33, 50, 66, 83, 100. First the claim as stated, refuted on a concrete batch.
\<close>

theorem progress_2_files_3_effects_not_rounded:
  "tl (progress_values (trace (process_batch engines_ok
        (batch_window [''a.png'', ''b.png''] [''blur'', ''sepia'', ''invert''])))) \<noteq>
   [17, 33, 50, 67, 83, 100]"
  using process_batch_progress_2_3
    [of "batch_window [''a.png'', ''b.png''] [''blur'', ''sepia'', ''invert'']" engines_ok]
  by (simp add: batch_window_simps)

text \<open>
  C4, amended: in a batch run of 2 files with 3 queued effects \<open>process_batch\<close> sets the
  progress bar to 0 and then, after the six steps, to the truncated percentages
  16, 33, 50, 66, 83, 100, in that order; they are non-decreasing.
\<close>

theorem progress_2_files_3_effects_truncated:
  assumes "length (batch_files w) = 2" and "length (effects_queue (batch_processor w)) = 3"
  shows "progress_values (trace (process_batch engs w)) =
           progress_values (trace w) @ 0 # [16, 33, 50, 66, 83, 100] \<and>
         sorted [16, 33, 50, 66, 83, 100 :: int]"
  using process_batch_progress_2_3 [OF assms] by simp

theorem progress_2_files_3_effects_truncated_witness:
  "length [''a.png'', ''b.png''] = 2 \<and> length [''blur'', ''sepia'', ''invert''] = 3 \<and>
   progress_values (trace (process_batch engines_first_fails
        (batch_window [''a.png'', ''b.png''] [''blur'', ''sepia'', ''invert'']))) =
     [0, 16, 33, 50, 66, 83, 100]"
  using progress_2_files_3_effects_truncated
    [of "batch_window [''a.png'', ''b.png''] [''blur'', ''sepia'', ''invert'']"
        engines_first_fails]
  by (simp add: batch_window_simps)

section \<open>Files with equal final components share one temporary path\<close>

text \<open>
  C10: two distinct original paths \<open>p\<close> and \<open>q\<close> with the same final component get the
  same path from \<open>get_temp_path\<close>. When both are in the batch (at positions \<open>i\<close> and
  \<open>k\<close>), every engine call made for the one writes to the same output path as every
  engine call made for the other, and after the run both entries of the processed
  mapping hold that one path.
\<close>

theorem equal_basenames_share_temp_path:
  assumes "path_name (Path p) = path_name (Path q)" and "p \<noteq> q"
    and "batch_files w = files" and "effects_queue (batch_processor w) = effs"
    and "effs \<noteq> []"
    and "i < length files" and "k < length files" and "files ! i = p" and "files ! k = q"
    and "calls = drop (length (engine_calls (trace w)))
                   (engine_calls (trace (process_batch engs w)))"
  shows "get_temp_path bp p = get_temp_path bp q \<and>
         (\<forall>j<length effs. \<forall>j'<length effs.
            snd (snd (calls ! (i * length effs + j))) =
            snd (snd (calls ! (k * length effs + j')))) \<and>
         map_of (processed_images (batch_processor (process_batch engs w))) p =
           Some (get_temp_path (batch_processor w) p) \<and>
         map_of (processed_images (batch_processor (process_batch engs w))) q =
           Some (get_temp_path (batch_processor w) p)"
proof -
  have eq: "get_temp_path b p = get_temp_path b q" for b
    using assms(1) by (simp add: get_temp_path_def)
  from assms(6) have ne: "files \<noteq> []" by auto
  note c = process_batch_calls [OF assms(3,4) ne assms(5) assms(10)]
  have out: "snd (snd (calls ! (i * length effs + j))) = get_temp_path (batch_processor w) p"
    if "j < length effs" for j
    using c(3) [OF assms(6) that] assms(8) by simp
  have out': "snd (snd (calls ! (k * length effs + j))) = get_temp_path (batch_processor w) p"
    if "j < length effs" for j
    using c(3) [OF assms(7) that] assms(9) eq by simp
  have pi: "map_of (processed_images (batch_processor (process_batch engs w))) f =
      Some (get_temp_path (batch_processor w) f)" if "f \<in> set files" for f
    using process_batch_result [of w engs] assms(3,4,5) ne that
    by (simp add: map_of_fold_update)
  have "p \<in> set files" "q \<in> set files"
    using assms(6-9) nth_mem by blast+
  then show ?thesis
    using eq out out' pi by simp
qed

theorem equal_basenames_share_temp_path_witness:
  "path_name (Path ''x/a.png'') = path_name (Path ''y/a.png'') \<and> ''x/a.png'' \<noteq> ''y/a.png'' \<and>
   get_temp_path (batch_processor (batch_window [''x/a.png'', ''y/a.png''] [''blur''])) ''x/a.png'' =
     ''/tmp/tmpk3x/temp_a.png'' \<and>
   map (\<lambda>c. snd (snd c)) (engine_calls (trace (process_batch engines_ok
       (batch_window [''x/a.png'', ''y/a.png''] [''blur''])))) =
     [''/tmp/tmpk3x/temp_a.png'', ''/tmp/tmpk3x/temp_a.png''] \<and>
   map_of (processed_images (batch_processor (process_batch engines_ok
       (batch_window [''x/a.png'', ''y/a.png''] [''blur''])))) ''x/a.png'' =
     Some ''/tmp/tmpk3x/temp_a.png'' \<and>
   map_of (processed_images (batch_processor (process_batch engines_ok
       (batch_window [''x/a.png'', ''y/a.png''] [''blur''])))) ''y/a.png'' =
     Some ''/tmp/tmpk3x/temp_a.png''"
proof -
  let ?w = "batch_window [''x/a.png'', ''y/a.png''] [''blur'']"
  have n: "path_name (Path ''x/a.png'') = path_name (Path ''y/a.png'')"
    by (simp add: path_name_def Path_def)
  have ne: "batch_files ?w \<noteq> []" "effects_queue (batch_processor ?w) \<noteq> []"
    by (simp_all add: batch_window_simps)
  have calls: "map (\<lambda>c. snd (snd c)) (engine_calls (trace (process_batch engines_ok ?w))) =
     [''/tmp/tmpk3x/temp_a.png'', ''/tmp/tmpk3x/temp_a.png'']"
    using process_batch_result [OF ne, of engines_ok]
    by (simp add: batch_window_simps temp_path_examples file_calls_Cons file_calls_Nil)
  note t = equal_basenames_share_temp_path
    [of "''x/a.png''" "''y/a.png''" ?w "[''x/a.png'', ''y/a.png'']" "[''blur'']" 0 1
        "engine_calls (trace (process_batch engines_ok ?w))" engines_ok "batch_processor ?w"]
  from t n calls show ?thesis
    by (simp add: batch_window_simps temp_path_examples)
qed

section \<open>Completion with a missing or undecodable result\<close>

text \<open>
  C7: when the result path of a completion does not exist or does not load as an image,
  \<open>processing_complete\<close> leaves the image state as it was: \<open>current_processed_image\<close>,
  the pixmap of the label, \<open>current_image\<close> and every command (so the \<open>new_state\<close> of the
  associated one) are unchanged. It logs the completion and then one error, a message of
  its own: no message that \<open>run\<close> logs for an engine failure is among the entries added.
\<close>

theorem processing_complete_invalid_result:
  assumes "\<not> path_exists fs result_path \<or> pixmap_is_null fs result_path"
  shows "current_processed_image (processing_complete fs result_path command w) =
           current_processed_image w \<and>
         image_label (processing_complete fs result_path command w) = image_label w \<and>
         current_image (processing_complete fs result_path command w) = current_image w \<and>
         commands (processing_complete fs result_path command w) = commands w \<and>
         trace (processing_complete fs result_path command w) =
           trace w @
           [Log_Info (''Processing complete. Result saved to: '' @ result_path),
            Log_Error (if \<not> path_exists fs result_path
                       then ''Error: Result file does not exist: '' @ result_path
                       else ''Error: Failed to load result image: '' @ result_path)] \<and>
         (\<forall>eng t msg. snd (run eng t) = Some msg \<longrightarrow>
            Log_Error msg \<notin> set (drop (length (trace w))
              (trace (processing_complete fs result_path command w))))"
proof -
  have tr: "trace (processing_complete fs result_path command w) =
           trace w @
           [Log_Info (''Processing complete. Result saved to: '' @ result_path),
            Log_Error (if \<not> path_exists fs result_path
                       then ''Error: Result file does not exist: '' @ result_path
                       else ''Error: Failed to load result image: '' @ result_path)]"
    using assms by (auto simp: processing_complete_def log_event_def Let_def)
  have msg: "msg \<noteq> ''Error: Result file does not exist: '' @ result_path \<and>
      msg \<noteq> ''Error: Failed to load result image: '' @ result_path"
    if "snd (run eng t) = Some msg" for eng t msg
    using that by (auto simp: run_def split: prod.splits engine_result.splits)
  show ?thesis
    unfolding tr using assms msg
    by (auto simp: processing_complete_def log_event_def Let_def)
qed

theorem processing_complete_invalid_result_witness:
  "\<not> path_exists files_missing ''/tmp/tmpk3x/temp_a.png'' \<and>
   current_processed_image
     (processing_complete files_missing ''/tmp/tmpk3x/temp_a.png'' (Some 0) grayscale_applied) =
     current_processed_image grayscale_applied \<and>
   image_label
     (processing_complete files_missing ''/tmp/tmpk3x/temp_a.png'' (Some 0) grayscale_applied) =
     image_label grayscale_applied \<and>
   commands
     (processing_complete files_missing ''/tmp/tmpk3x/temp_a.png'' (Some 0) grayscale_applied) =
     commands grayscale_applied"
  using processing_complete_invalid_result
    [of files_missing "''/tmp/tmpk3x/temp_a.png''" "Some 0" grayscale_applied]
  by (simp add: files_missing_def)

section \<open>Redo restores the cached state without the engine\<close>

text \<open>
  C5: a command whose \<open>new_state\<close> is populated is redone by loading the cached path:
  no thread is started, nothing is added to the trace (so no engine call is made), and
  \<open>current_image\<close> is \<open>new_state.path\<close>; that path is a string (\<open>new_state\<close> is written
  by \<open>processing_complete\<close> only, with the result path), so nothing is raised and the
  label shows its pixmap. A command whose \<open>new_state\<close> is empty is redone by
  \<open>process_image_internal\<close> with the command's effect and the command itself, which is
  also what the first application inside \<open>process_image\<close> does. When every command of
  the undo stack is populated, any number of redos of the stack starts no thread and
  adds nothing to the trace. The witness is the scenario of \<open>a.png\<close> and \<open>grayscale\<close>:
  after undo the label shows \<open>a.png\<close>, redo shows the temporary path, and the engine
  has still been called once.
\<close>

theorem redo_restores_cached_state:
  "(new_state (commands w ! c) = Some s \<longrightarrow>
      running (snd (cmd_redo c w)) = running w \<and> trace (snd (cmd_redo c w)) = trace w \<and>
      commands (snd (cmd_redo c w)) = commands w \<and>
      current_image (snd (cmd_redo c w)) = path s \<and>
      (path s \<noteq> None \<longrightarrow>
         fst (cmd_redo c w) = None \<and>
         image_label (snd (cmd_redo c w)) = Some (QPixmap (path s)))) \<and>
   (new_state (commands w ! c) = None \<longrightarrow>
      cmd_redo c w =
        (None, process_image_internal (effect_type (commands w ! c)) (Some c) w)) \<and>
   running (snd (process_image eff w)) =
     running (process_image_internal eff (Some (length (commands w))) w) \<and>
   ((\<forall>k<length (undo_stack w). new_state (stack_command w k) \<noteq> None) \<longrightarrow>
      running (snd (repeatedly n stack_redo w)) = running w \<and>
      trace (snd (repeatedly n stack_redo w)) = trace w)"
proof -
  have first: "running (snd (process_image eff w)) =
     running (process_image_internal eff (Some (length (commands w))) w)"
    by (simp add: process_image_running process_image_internal_running)
  have cached: "running (snd (cmd_redo c w)) = running w \<and> trace (snd (cmd_redo c w)) = trace w \<and>
      commands (snd (cmd_redo c w)) = commands w \<and>
      current_image (snd (cmd_redo c w)) = path s \<and>
      (path s \<noteq> None \<longrightarrow>
         fst (cmd_redo c w) = None \<and>
         image_label (snd (cmd_redo c w)) = Some (QPixmap (path s)))"
    if "new_state (commands w ! c) = Some s"
    using that
    by (cases "path s") (simp_all add: cmd_redo_def load_specific_image_Some load_specific_image_None)
  show ?thesis
    using first cached repeatedly_stack_redo_cached_frame [of w n]
    by (simp add: cmd_redo_def)
qed

theorem redo_restores_cached_state_witness:
  "fst (stack_undo grayscale_applied) = None \<and>
   image_label (snd (stack_undo grayscale_applied)) = Some (QPixmap (Some ''a.png'')) \<and>
   new_state (commands (snd (stack_undo grayscale_applied)) ! 0) =
     Some \<lparr>path = Some ''/tmp/tmpk3x/temp_a.png'', effect = Some ''grayscale''\<rparr> \<and>
   fst (cmd_redo 0 (snd (stack_undo grayscale_applied))) = None \<and>
   image_label (snd (cmd_redo 0 (snd (stack_undo grayscale_applied)))) =
     Some (QPixmap (Some ''/tmp/tmpk3x/temp_a.png'')) \<and>
   running (snd (cmd_redo 0 (snd (stack_undo grayscale_applied)))) = [] \<and>
   engine_calls (trace (snd (cmd_redo 0 (snd (stack_undo grayscale_applied))))) =
     [(''a.png'', ''grayscale'', ''/tmp/tmpk3x/temp_a.png'')] \<and>
   running (snd (repeatedly 2 stack_redo (snd (stack_undo grayscale_applied)))) = [] \<and>
   engine_calls (trace (snd (repeatedly 2 stack_redo (snd (stack_undo grayscale_applied))))) =
     [(''a.png'', ''grayscale'', ''/tmp/tmpk3x/temp_a.png'')]"
proof -
  let ?u = "snd (stack_undo grayscale_applied)"
  have u: "stack_undo grayscale_applied =
      (None, grayscale_applied\<lparr>current_image := Some ''a.png'',
               image_label := Some (QPixmap (Some ''a.png'')),
               effect_buttons_enabled := True, undo_index := 0\<rparr>)"
    using stack_undo_eq [of grayscale_applied "''a.png''"]
    by (simp add: grayscale_applied_fields stack_command_def)
  have fields: "fst (stack_undo grayscale_applied) = None"
    "image_label ?u = Some (QPixmap (Some ''a.png''))"
    "commands ?u = commands grayscale_applied" "undo_stack ?u = [0]"
    "running ?u = []" "trace ?u = trace grayscale_applied"
    unfolding u by (simp_all add: grayscale_applied_fields)
  have pop: "\<forall>k<length (undo_stack ?u). new_state (stack_command ?u k) \<noteq> None"
    by (simp add: fields stack_command_def grayscale_applied_fields)
  from redo_restores_cached_state
    [of ?u 0 "\<lparr>path = Some ''/tmp/tmpk3x/temp_a.png'', effect = Some ''grayscale''\<rparr>" _ 2]
    pop
  show ?thesis
    by (simp add: fields grayscale_applied_fields)
qed

section \<open>Undo and redo of a command created without an image\<close>




section \<open>Undoing and redoing all of N edits\<close>

text \<open>
  C6 states that for any \<open>N\<close> pushed commands with populated \<open>new_state\<close>, \<open>N\<close> undos
  and \<open>N\<close> redos bring back the image displayed after the \<open>N\<close> applications. Nothing
  stops a second edit while the thread of the first is running. \<open>blur\<close> is applied to
  \<open>a.png\<close>, then \<open>b.png\<close> is opened and \<open>sepia\<close> applied; the thread of \<open>sepia\<close>
  finishes first, the thread of \<open>blur\<close> last. Both commands are populated and the
  label shows the result of \<open>blur\<close>; after two undos and two redos it shows the result
  of \<open>sepia\<close>.
\<close>

theorem undo_redo_after_out_of_order_completion:
  "undo_index edits_finished_out_of_order = 2 \<and>
   new_state (stack_command edits_finished_out_of_order 0) =
     Some \<lparr>path = Some ''/tmp/tmpk3x/temp_a.png'', effect = Some ''blur''\<rparr> \<and>
   new_state (stack_command edits_finished_out_of_order 1) =
     Some \<lparr>path = Some ''/tmp/tmpk3x/temp_b.png'', effect = Some ''sepia''\<rparr> \<and>
   image_label edits_finished_out_of_order = Some (QPixmap (Some ''/tmp/tmpk3x/temp_a.png'')) \<and>
   fst (undo_then_redo 2 edits_finished_out_of_order) = None \<and>
   image_label (snd (undo_then_redo 2 edits_finished_out_of_order)) =
     Some (QPixmap (Some ''/tmp/tmpk3x/temp_b.png''))"
proof -
  let ?w = edits_finished_out_of_order
  note w = edits_finished_out_of_order_fields
  have sc: "stack_command ?w 0 = commands ?w ! 0" "stack_command ?w (Suc 0) = commands ?w ! 1"
    by (simp_all add: stack_command_def w)
  have olds: "\<forall>k<undo_index ?w. path (old_state (stack_command ?w k)) \<noteq> None \<or>
      k < undo_index ?w - 2"
    by (simp add: w stack_command_def less_Suc_eq numeral_2_eq_2)
  have "2 \<le> undo_index ?w" "undo_index ?w \<le> length (undo_stack ?w)"
    by (simp_all add: w)
  from repeatedly_stack_undo [OF this olds]
  have un0: "repeatedly 2 stack_undo ?w = (None, snd (repeatedly 2 stack_undo ?w))"
    and u0: "commands (snd (repeatedly 2 stack_undo ?w)) = commands ?w"
      "undo_stack (snd (repeatedly 2 stack_undo ?w)) = [0, 1]"
      "undo_index (snd (repeatedly 2 stack_undo ?w)) = 0"
    by (simp_all add: prod_eq_iff w)
  define u where "u = snd (repeatedly 2 stack_undo ?w)"
  have un: "repeatedly 2 stack_undo ?w = (None, u)"
    and u: "commands u = commands ?w" "undo_stack u = [0, 1]" "undo_index u = 0"
    using un0 u0 by (simp_all add: u_def)
  have fit: "undo_index u + 2 \<le> length (undo_stack u)"
    by (simp add: u)
  have news: "\<forall>k<2. \<exists>s p. new_state (stack_command u (undo_index u + k)) = Some s \<and>
      path s = Some p"
    by (simp add: u w stack_command_def less_Suc_eq numeral_2_eq_2)
  note redo = repeatedly_stack_redo [OF fit news]
  have top: "new_state (stack_command u (undo_index u + 2 - 1)) =
      Some \<lparr>path = Some ''/tmp/tmpk3x/temp_b.png'', effect = Some ''sepia''\<rparr>"
    by (simp add: u w stack_command_def)
  have ur: "undo_then_redo 2 ?w = repeatedly 2 stack_redo u"
    by (subst undo_then_redo_def, subst un) (simp only: and_then_simps)
  from redo top have "fst (repeatedly 2 stack_redo u) = None"
    and "image_label (snd (repeatedly 2 stack_redo u)) =
      Some (QPixmap (Some ''/tmp/tmpk3x/temp_b.png''))"
    by simp_all
  then show ?thesis
    unfolding ur by (simp add: w stack_command_def)
qed

text \<open>
  C6, amended: starting from a window that shows a loaded image, \<open>N\<close> effects are
  applied one after the other, each by \<open>process_image\<close> followed by the successful
  completion of its thread (the engine returns a path that exists and loads) before the
  next action; another image, of a non-empty file name, may be opened before any of the
  edits. Then the \<open>N\<close>
  commands are on the undo stack with their \<open>new_state\<close> populated, and \<open>N\<close> undos
  followed by \<open>N\<close> redos raise nothing and leave the label with the same pixmap path as
  right after the \<open>N\<close> applications.
\<close>

theorem undo_all_redo_all_restores_display:
  assumes wf: "undo_index w \<le> length (undo_stack w)"
    and img: "current_image w = Some img" "img \<noteq> []"
    and ok: "\<forall>(opened, eff, eng, fs)\<in>set steps. opened \<noteq> Some [] \<and> (\<forall>i out.
        case snd (eng i eff out) of
          Returned r \<Rightarrow> path_exists fs r \<and> \<not> pixmap_is_null fs r
        | Raised e \<Rightarrow> False)"
    and w': "w' = snd (apply_effects steps w)" and n: "n = length steps"
  shows "fst (apply_effects steps w) = None \<and>
         undo_index w' = undo_index w + n \<and>
         (\<forall>k<n. new_state (stack_command w' (undo_index w + k)) \<noteq> None) \<and>
         fst (undo_then_redo n w') = None \<and>
         image_label (snd (undo_then_redo n w')) = image_label w'"
proof -
  note inv = apply_effects_invariant [OF wf img ok, folded w' n]
  from inv have noerr: "fst (apply_effects steps w) = None"
    and ui: "undo_index w' = undo_index w + n"
    and le: "undo_index w' \<le> length (undo_stack w')"
    and old: "\<And>k. k < n \<Longrightarrow> path (old_state (stack_command w' (undo_index w + k))) \<noteq> None"
    and pop: "\<And>k. k < n \<Longrightarrow>
        \<exists>s p. new_state (stack_command w' (undo_index w + k)) = Some s \<and> path s = Some p"
    by simp_all
  have nle: "n \<le> undo_index w'" using ui by simp
  have olds: "\<forall>k<undo_index w'. path (old_state (stack_command w' k)) \<noteq> None \<or>
      k < undo_index w' - n"
  proof (intro allI impI)
    fix k assume "k < undo_index w'"
    show "path (old_state (stack_command w' k)) \<noteq> None \<or> k < undo_index w' - n"
    proof (cases "k < undo_index w")
      case True
      then show ?thesis using ui by simp
    next
      case False
      with \<open>k < undo_index w'\<close> ui have "k - undo_index w < n"
        and "undo_index w + (k - undo_index w) = k"
        by simp_all
      with old [of "k - undo_index w"] show ?thesis by simp
    qed
  qed
  let ?u = "snd (repeatedly n stack_undo w')"
  from repeatedly_stack_undo [OF nle le olds]
  have un: "repeatedly n stack_undo w' = (None, ?u)"
    and u: "commands ?u = commands w'" "undo_stack ?u = undo_stack w'"
      "undo_index ?u = undo_index w"
    using ui by (simp_all add: prod_eq_iff)
  have sc: "stack_command ?u k = stack_command w' k" for k
    by (simp add: stack_command_def u)
  have fit: "undo_index ?u + n \<le> length (undo_stack ?u)"
    using u ui le by simp
  have pop': "\<forall>k<n. \<exists>s p. new_state (stack_command ?u (undo_index ?u + k)) = Some s \<and>
      path s = Some p"
    using pop by (simp add: sc u)
  note redo = repeatedly_stack_redo [OF fit pop']
  have ur: "undo_then_redo n w' = repeatedly n stack_redo ?u"
    by (subst undo_then_redo_def, subst un) (simp add: and_then_simps)
  have "image_label (snd (repeatedly n stack_redo ?u)) = image_label w'"
  proof (cases "n = 0")
    case True
    then show ?thesis by simp
  next
    case False
    with n have "steps \<noteq> []" by auto
    with inv obtain s where
      s: "new_state (stack_command w' (undo_index w + n - 1)) = Some s"
      and l: "image_label w' = Some (QPixmap (path s))"
      using n by auto
    from redo False s have "image_label (snd (repeatedly n stack_redo ?u)) =
        Some (QPixmap (path s))"
      by (simp add: sc u)
    with l show ?thesis by simp
  qed
  moreover have "\<forall>k<n. new_state (stack_command w' (undo_index w + k)) \<noteq> None"
    using pop by fastforce
  ultimately show ?thesis
    using noerr ui redo unfolding ur by simp
qed

theorem undo_all_redo_all_restores_display_witness:
  "undo_index a_png_loaded \<le> length (undo_stack a_png_loaded) \<and>
   current_image a_png_loaded = Some ''a.png'' \<and>
   undo_index (snd (apply_effects [(None, ''blur'', engine_ok, files_valid),
                                   (Some ''b.png'', ''sepia'', engine_ok, files_valid)]
                      a_png_loaded)) = 2 \<and>
   image_label (snd (repeatedly 2 stack_undo
      (snd (apply_effects [(None, ''blur'', engine_ok, files_valid),
                           (Some ''b.png'', ''sepia'', engine_ok, files_valid)]
              a_png_loaded)))) =
     Some (QPixmap (Some ''a.png'')) \<and>
   image_label (snd (apply_effects [(None, ''blur'', engine_ok, files_valid),
                                    (Some ''b.png'', ''sepia'', engine_ok, files_valid)]
                       a_png_loaded)) =
     Some (QPixmap (Some ''/tmp/tmpk3x/temp_b.png'')) \<and>
   fst (undo_then_redo 2
      (snd (apply_effects [(None, ''blur'', engine_ok, files_valid),
                           (Some ''b.png'', ''sepia'', engine_ok, files_valid)]
              a_png_loaded))) = None \<and>
   image_label (snd (undo_then_redo 2
      (snd (apply_effects [(None, ''blur'', engine_ok, files_valid),
                           (Some ''b.png'', ''sepia'', engine_ok, files_valid)]
              a_png_loaded)))) =
     Some (QPixmap (Some ''/tmp/tmpk3x/temp_b.png''))"
proof -
  have ok: "\<forall>(opened, eff, eng, fs)\<in>set [(None, ''blur'', engine_ok, files_valid),
        (Some ''b.png'', ''sepia'', engine_ok, files_valid)]. opened \<noteq> Some [] \<and> (\<forall>i out.
        case snd (eng i eff out) of
          Returned r \<Rightarrow> path_exists fs r \<and> \<not> pixmap_is_null fs r
        | Raised e \<Rightarrow> False)"
    by (simp add: engine_ok_def files_valid_def)
  have wf: "undo_index a_png_loaded \<le> length (undo_stack a_png_loaded)"
    and img: "current_image a_png_loaded = Some ''a.png''" "''a.png'' \<noteq> []"
    by (simp_all add: a_png_loaded_fields)
  from undo_all_redo_all_restores_display [OF wf img ok refl, of 2] wf img
  show ?thesis
    by (simp add: a_png_loaded_fields two_edits_fields)
qed

section \<open>A single-image edit also queues its effect for the batch\<close>

text \<open>
  C9: every call of \<open>process_image\<close> pushes a new command on the undo stack and also
  appends the effect to the \<open>effects_queue\<close> of the batch processor, which then holds
  \<open>E + 1\<close> effects. A batch run after it makes \<open>E + 1\<close> engine calls for every batch
  file, the last of them with the effect just applied to the single image.
\<close>

theorem process_image_grows_effects_queue:
  assumes w': "w' = snd (process_image eff w)"
    and E: "E = length (effects_queue (batch_processor w))"
    and calls: "calls = drop (length (engine_calls (trace w')))
                          (engine_calls (trace (process_batch engs w')))"
  shows "fst (process_image eff w) = None \<and>
         effects_queue (batch_processor w') = effects_queue (batch_processor w) @ [eff] \<and>
         commands w' =
           commands w @ [\<lparr>effect_type = eff,
                          old_state = \<lparr>path = current_image w, effect = None\<rparr>,
                          new_state = None\<rparr>] \<and>
         undo_stack w' = take (undo_index w) (undo_stack w) @ [length (commands w)] \<and>
         undo_index w' = undo_index w + 1 \<and>
         batch_files w' = batch_files w \<and>
         length calls = length (batch_files w) * (E + 1) \<and>
         (\<forall>i<length (batch_files w).
            calls ! (i * (E + 1) + E) =
              (if E = 0 then batch_files w ! i
               else get_temp_path (batch_processor w) (batch_files w ! i),
               eff, get_temp_path (batch_processor w) (batch_files w ! i)))"
proof -
  have q: "effects_queue (batch_processor w') = effects_queue (batch_processor w) @ [eff]"
    and bf: "batch_files w' = batch_files w"
    and td: "temp_dir (batch_processor w') = temp_dir (batch_processor w)"
    unfolding w' by (simp_all add: process_image_fields add_effect_def)
  have tp: "get_temp_path (batch_processor w') f = get_temp_path (batch_processor w) f" for f
    using td by (rule get_temp_path_cong)
  have batch: "length calls = length (batch_files w) * (E + 1) \<and>
         (\<forall>i<length (batch_files w).
            calls ! (i * (E + 1) + E) =
              (if E = 0 then batch_files w ! i
               else get_temp_path (batch_processor w) (batch_files w ! i),
               eff, get_temp_path (batch_processor w) (batch_files w ! i)))"
  proof (cases "batch_files w = []")
    case True
    then have "process_batch engs w' = log_event (Log_Info ''No files or effects to process'') w'"
      using bf by (simp add: process_batch_def)
    then have "calls = []"
      using calls by (simp add: log_event_def engine_calls_append)
    with True show ?thesis by simp
  next
    case False
    have ne: "effects_queue (batch_processor w) @ [eff] \<noteq> []" by simp
    note c = process_batch_calls [OF bf q False ne calls]
    have len: "length (effects_queue (batch_processor w) @ [eff]) = E + 1"
      using E by simp
    have "calls ! (i * (E + 1) + E) =
              (if E = 0 then batch_files w ! i
               else get_temp_path (batch_processor w) (batch_files w ! i),
               eff, get_temp_path (batch_processor w) (batch_files w ! i))"
      if "i < length (batch_files w)" for i
      using c(3) [OF that, of E] E unfolding len by (simp add: tp nth_append)
    with c(2) len show ?thesis by simp
  qed
  show ?thesis
    using q bf batch unfolding w' by (simp add: process_image_fields)
qed

theorem process_image_grows_effects_queue_witness:
  "fst (process_image ''sepia'' (batch_window [''a.png''] [''blur''])) = None \<and>
   effects_queue (batch_processor
       (snd (process_image ''sepia'' (batch_window [''a.png''] [''blur''])))) =
     [''blur'', ''sepia''] \<and>
   length (undo_stack (snd (process_image ''sepia'' (batch_window [''a.png''] [''blur''])))) = 1 \<and>
   engine_calls (trace (process_batch engines_ok
       (snd (process_image ''sepia'' (batch_window [''a.png''] [''blur'']))))) ! 1 =
     (''/tmp/tmpk3x/temp_a.png'', ''sepia'', ''/tmp/tmpk3x/temp_a.png'')"
proof -
  let ?w = "batch_window [''a.png''] [''blur'']"
  have tr: "trace (snd (process_image ''sepia'' ?w)) = []"
    by (simp add: process_image_fields batch_window_simps)
  note t = process_image_grows_effects_queue
    [of "snd (process_image ''sepia'' ?w)" "''sepia''" ?w 1
        "engine_calls (trace (process_batch engines_ok (snd (process_image ''sepia'' ?w))))" engines_ok]
  from t have "\<forall>i<length (batch_files ?w).
      engine_calls (trace (process_batch engines_ok (snd (process_image ''sepia'' ?w)))) ! (i * (1 + 1) + 1) =
        (if (1::nat) = 0 then batch_files ?w ! i
         else get_temp_path (batch_processor ?w) (batch_files ?w ! i),
         ''sepia'', get_temp_path (batch_processor ?w) (batch_files ?w ! i))"
    by (simp add: tr batch_window_simps)
  from this [rule_format, of 0]
  have c: "engine_calls (trace (process_batch engines_ok (snd (process_image ''sepia'' ?w)))) ! 1 =
     (''/tmp/tmpk3x/temp_a.png'', ''sepia'', ''/tmp/tmpk3x/temp_a.png'')"
    by (simp add: batch_window_simps temp_path_examples)
  have st: "undo_stack ?w = []" "undo_index ?w = 0"
    by (simp_all add: batch_window_def init_main_window_def)
  from t c show ?thesis
    by (simp add: tr st batch_window_simps)
qed

end
